theory Spec2Isabelle
  imports
    Complex_Main
    "HOL-Library.Multiset"
    "HOL-Library.Char_ord"
    "HOL-Library.List_Lexorder"
begin

section \<open>Data model\<close>

text \<open>
  The program (\<^verbatim>\<open>src/app.py\<close>) loads a tab-separated keyword export into a pandas
  DataFrame (\<^verbatim>\<open>process_file\<close>) and groups it by url (\<^verbatim>\<open>cluster_keywords\<close>).

  A cell of a DataFrame column is a text, a number, or the missing value NaN. Numbers are
  whole numbers here: search volumes and rank positions of a keyword export. Fractional
  values and the rounding of float64 arithmetic are outside this model.
\<close>

datatype cell = NaN | Num int | Str string

text \<open>
  \<^verbatim>\<open>groupby\<close> orders its keys. A column holds either texts or numbers (NaN apart), so only
  texts are compared with texts (Python: by code point, a proper prefix first) and numbers
  with numbers; the order between the kinds is fixed here only to make the order total.
\<close>

instantiation cell :: linorder
begin

fun less_eq_cell :: "cell \<Rightarrow> cell \<Rightarrow> bool" where
  "less_eq_cell NaN c = True"
| "less_eq_cell (Num a) NaN = False"
| "less_eq_cell (Num a) (Num b) = (a \<le> b)"
| "less_eq_cell (Num a) (Str t) = True"
| "less_eq_cell (Str s) (Str t) = (s \<le> t)"
| "less_eq_cell (Str s) c = False"

definition less_cell :: "cell \<Rightarrow> cell \<Rightarrow> bool" where
  "less_cell x y = (x \<le> y \<and> \<not> y \<le> x)"

instance
proof
  fix x y z :: cell
  show "(x < y) = (x \<le> y \<and> \<not> y \<le> x)"
    by (simp add: less_cell_def)
  show "x \<le> x"
    by (cases x) simp_all
  show "x \<le> y \<Longrightarrow> y \<le> z \<Longrightarrow> x \<le> z"
    by (cases x; cases y; cases z) simp_all
  show "x \<le> y \<Longrightarrow> y \<le> x \<Longrightarrow> x = y"
    by (cases x; cases y) simp_all
  show "x \<le> y \<or> y \<le> x"
    by (cases x; cases y) auto
qed

end

text \<open>
  One row of the normalized DataFrame that \<^verbatim>\<open>process_file\<close> returns. \<^verbatim>\<open>volume\<close> and
  \<^verbatim>\<open>position\<close> are numeric columns (\<^verbatim>\<open>pd.to_numeric(..., errors='coerce')\<close>): \<open>None\<close> is NaN.
\<close>

record keyword_record =
  keyword :: cell
  volume :: "int option"
  position :: "int option"
  url :: cell
  branded :: cell
  local_flag :: cell
  informational :: cell
  commercial :: cell
  transactional :: cell

type_synonym dataframe = "keyword_record list"

text \<open>
  The exceptions the two functions can meet. Both functions catch every exception,
  report it with \<^verbatim>\<open>st.error\<close> and return \<^verbatim>\<open>None\<close>.
\<close>

datatype exn =
    UnicodeError
  | ParserError
  | KeyError "string list"
  | AttributeError
  | ValueError
  | ZeroDivisionError

section \<open>The library's sort\<close>

text \<open>
  \<^verbatim>\<open>DataFrame.sort_values(by=col, ascending=...)\<close> is called without \<^verbatim>\<open>kind\<close>, so pandas
  sorts with its default kind \<^verbatim>\<open>'quicksort'\<close>: the column's non-NaN values go to numpy's
  \<^verbatim>\<open>argsort\<close>, which returns the positions of the values in ascending order of value. The
  library documents only \<^verbatim>\<open>'mergesort'\<close> and \<^verbatim>\<open>'stable'\<close> as stable kinds; what the default
  kind does with equal values depends on the length of the array and on the build of numpy.
  The argsort is therefore a parameter of the model, and \<open>argsort_ok\<close> is its contract:
  the result is a permutation of the positions that puts the values in ascending order.
\<close>

type_synonym argsort = "int list \<Rightarrow> nat list"

definition argsort_ok :: "argsort \<Rightarrow> bool" where
  "argsort_ok f \<longleftrightarrow>
     (\<forall>ks. mset (f ks) = mset [0..<length ks] \<and> sorted (map ((!) ks) (f ks)))"

text \<open>
  A stable argsort: insertion sort, which is what numpy's quicksort does on an array of
  at most 17 elements (its scalar code path).
\<close>

definition stable_argsort :: argsort where
  "stable_argsort ks = sort_key ((!) ks) [0..<length ks]"


text \<open>
  pandas' \<^verbatim>\<open>nargsort\<close>, which \<^verbatim>\<open>sort_values\<close> calls for a single sort column: NaN positions
  are set aside and appended (\<^verbatim>\<open>na_position='last'\<close>); for a descending sort the values are
  reversed before the argsort and the indexer is reversed after it.
\<close>

definition nargsort :: "argsort \<Rightarrow> bool \<Rightarrow> int option list \<Rightarrow> nat list" where
  "nargsort f ascending items =
     (let idx = [0..<length items];
          non_nan_idx = filter (\<lambda>i. items ! i \<noteq> None) idx;
          nan_idx = filter (\<lambda>i. items ! i = None) idx;
          non_nan_idx = (if ascending then non_nan_idx else rev non_nan_idx);
          non_nans = map (\<lambda>i. the (items ! i)) non_nan_idx;
          indexer = map ((!) non_nan_idx) (f non_nans);
          indexer = (if ascending then indexer else rev indexer)
      in indexer @ nan_idx)"

text \<open>\<^verbatim>\<open>df.take(indexer)\<close>: the rows at the positions of the indexer, as a new frame.\<close>

definition take_rows :: "'a list \<Rightarrow> nat list \<Rightarrow> 'a list" where
  "take_rows rows indexer = map ((!) rows) indexer"

text \<open>Line 62: \<^verbatim>\<open>df.sort_values(by='volume', ascending=False)\<close>.\<close>

definition sort_values_volume :: "argsort \<Rightarrow> dataframe \<Rightarrow> dataframe" where
  "sort_values_volume f df = take_rows df (nargsort f False (map volume df))"

section \<open>cluster_keywords\<close>

text \<open>\<^verbatim>\<open>Series.unique()\<close>: the distinct values in order of first appearance (NaN once).\<close>

fun unique :: "'a list \<Rightarrow> 'a list" where
  "unique [] = []"
| "unique (x # xs) = x # unique (removeAll x xs)"

text \<open>\<^verbatim>\<open>df_sorted['url'] == url\<close>, row by row: NaN is equal to nothing, itself included.\<close>

definition cell_eq :: "cell \<Rightarrow> cell \<Rightarrow> bool" where
  "cell_eq a b \<longleftrightarrow> a \<noteq> NaN \<and> a = b"

text \<open>
  Lines 67 to 71: the loop over the unique urls that fills the two dictionaries.
  \<^verbatim>\<open>int(...)\<close> of NaN raises ValueError; of a whole number it is that number.
\<close>

fun top_loop ::
  "dataframe \<Rightarrow> cell list \<Rightarrow> (cell \<rightharpoonup> cell) \<times> (cell \<rightharpoonup> int)
     \<Rightarrow> exn + (cell \<rightharpoonup> cell) \<times> (cell \<rightharpoonup> int)" where
  "top_loop df_sorted [] dicts = Inr dicts"
| "top_loop df_sorted (u # us) (top_keywords, top_volumes) =
     (case filter (\<lambda>r. cell_eq (url r) u) df_sorted of
        [] \<Rightarrow> top_loop df_sorted us (top_keywords, top_volumes)
      | r # _ \<Rightarrow>
          (case volume r of
             None \<Rightarrow> Inl ValueError
           | Some v \<Rightarrow>
               top_loop df_sorted us (top_keywords(u \<mapsto> keyword r), top_volumes(u \<mapsto> v))))"

text \<open>
  Lines 74 to 78: \<^verbatim>\<open>groupby('url', as_index=False).agg(list)\<close>. The defaults of \<^verbatim>\<open>groupby\<close>
  are \<^verbatim>\<open>sort=True\<close> (one row per key, the keys in ascending order) and \<^verbatim>\<open>dropna=True\<close> (rows
  whose url is NaN belong to no group). Inside a group the rows keep the order of the frame.
\<close>

record url_rows =
  rows_url :: cell
  keyword_list :: "cell list"
  position_list :: "int option list"
  volume_list :: "int option list"

definition group_keys :: "dataframe \<Rightarrow> cell list" where
  "group_keys df = sort (remdups (filter (\<lambda>u. u \<noteq> NaN) (map url df)))"

definition rows_of_key :: "dataframe \<Rightarrow> cell \<Rightarrow> url_rows" where
  "rows_of_key df u =
     (let g = filter (\<lambda>r. url r = u) df
      in \<lparr>rows_url = u, keyword_list = map keyword g,
          position_list = map position g, volume_list = map volume g\<rparr>)"

definition groupby_url :: "dataframe \<Rightarrow> url_rows list" where
  "groupby_url df = map (rows_of_key df) (group_keys df)"

text \<open>
  Line 82, Python's \<^verbatim>\<open>sum\<close> over a list of numbers: it starts from 0 and adds from the left.
  A sum with a NaN operand is NaN, so one NaN makes every later partial sum NaN.
\<close>

definition nan_add :: "int option \<Rightarrow> int option \<Rightarrow> int option" where
  "nan_add a b = (case a of None \<Rightarrow> None | Some x \<Rightarrow> (case b of None \<Rightarrow> None | Some y \<Rightarrow> Some (x + y)))"

definition py_sum :: "int option list \<Rightarrow> int option" where
  "py_sum xs = foldl nan_add (Some 0) xs"

text \<open>
  Line 83, \<^verbatim>\<open>round(sum(x)/len(x), 1)\<close>: the division raises ZeroDivisionError on an empty
  list. The value kept is the exact mean (NaN as \<open>None\<close>); the source holds it as a float
  rounded to one decimal, which this model does not represent.
\<close>

definition avg_position_of :: "int option list \<Rightarrow> exn + rat option" where
  "avg_position_of x =
     (if length x = 0 then Inl ZeroDivisionError
      else Inr (map_option (\<lambda>s. of_int s / of_nat (length x)) (py_sum x)))"

text \<open>Running a function that may raise over a column: the first exception ends it.\<close>

fun apply_col :: "('a \<Rightarrow> exn + 'b) \<Rightarrow> 'a list \<Rightarrow> exn + 'b list" where
  "apply_col f [] = Inr []"
| "apply_col f (x # xs) =
     (case f x of
        Inl e \<Rightarrow> Inl e
      | Inr y \<Rightarrow> (case apply_col f xs of Inl e \<Rightarrow> Inl e | Inr ys \<Rightarrow> Inr (y # ys)))"

text \<open>Decimal text of a whole number (\<^verbatim>\<open>str\<close> of a Python int).\<close>

function str_nat :: "nat \<Rightarrow> string" where
  "str_nat n =
     (if n < 10 then [''0123456789'' ! n]
      else str_nat (n div 10) @ [''0123456789'' ! (n mod 10)])"
  by pat_completeness auto
termination
  by (relation "measure id") auto

declare str_nat.simps [simp del]

definition str_int :: "int \<Rightarrow> string" where
  "str_int i = (if i < 0 then CHR ''-'' # str_nat (nat (- i)) else str_nat (nat i))"

text \<open>
  \<^verbatim>\<open>str\<close> of a value taken from a numeric column. The column is int64 when it has no NaN
  and float64 when it has one, and a float prints with its fraction: \<^verbatim>\<open>3.0\<close>, \<^verbatim>\<open>nan\<close>.
  (Floats of 16 digits and more print in exponent notation; not modelled.)
\<close>

definition str_number :: "bool \<Rightarrow> int option \<Rightarrow> string" where
  "str_number is_float x =
     (case x of
        None \<Rightarrow> ''nan''
      | Some n \<Rightarrow> if is_float then str_int n @ ''.0'' else str_int n)"

definition str_cell :: "bool \<Rightarrow> cell \<Rightarrow> string" where
  "str_cell is_float c =
     (case c of NaN \<Rightarrow> ''nan'' | Num n \<Rightarrow> str_number is_float (Some n) | Str s \<Rightarrow> s)"

text \<open>\<^verbatim>\<open>'\n'.join(...)\<close>.\<close>

fun join_lines :: "string list \<Rightarrow> string" where
  "join_lines [] = []"
| "join_lines [x] = x"
| "join_lines (x # y # ys) = x @ [CHR 0x0A] @ join_lines (y # ys)"

text \<open>Line 92: \<^verbatim>\<open>'\n'.join(str(int(v)) for v in x)\<close>; \<^verbatim>\<open>int(v)\<close> raises ValueError on NaN.\<close>

definition int_of_float :: "int option \<Rightarrow> exn + int" where
  "int_of_float v = (case v of None \<Rightarrow> Inl ValueError | Some n \<Rightarrow> Inr n)"

definition volume_text_of :: "int option list \<Rightarrow> exn + string" where
  "volume_text_of x =
     (case apply_col int_of_float x of
        Inl e \<Rightarrow> Inl e
      | Inr vs \<Rightarrow> Inr (join_lines (map str_int vs)))"

text \<open>
  A row of the result, with the columns in the order of lines 95 to 105. The columns
  \<^verbatim>\<open>url\<close>, \<^verbatim>\<open>keyword\<close>, \<^verbatim>\<open>volume\<close> and \<^verbatim>\<open>position\<close> of the result are the fields \<open>group_url\<close>,
  \<open>keyword_text\<close>, \<open>volume_text\<close> and \<open>position_text\<close>. \<^verbatim>\<open>Series.map(dict)\<close> gives NaN for a key
  that the dictionary does not have.
\<close>

record url_group =
  group_url :: cell
  top_keyword :: cell
  top_keyword_volume :: "int option"
  avg_position :: "rat option"
  keyword_count :: nat
  total_volume :: "int option"
  keyword_text :: string
  volume_text :: string
  position_text :: string

definition map_dict :: "('k \<rightharpoonup> cell) \<Rightarrow> 'k \<Rightarrow> cell" where
  "map_dict d k = (case d k of None \<Rightarrow> NaN | Some v \<Rightarrow> v)"

definition column_is_float :: "'a option list \<Rightarrow> bool" where
  "column_is_float xs \<longleftrightarrow> None \<in> set xs"

definition result_row ::
  "dataframe \<Rightarrow> (cell \<rightharpoonup> cell) \<Rightarrow> (cell \<rightharpoonup> int) \<Rightarrow> url_rows \<times> rat option \<times> string
     \<Rightarrow> url_group" where
  "result_row df top_keywords top_volumes t =
     (case t of (g, avg, vtext) \<Rightarrow>
        \<lparr>group_url = rows_url g,
         top_keyword = map_dict top_keywords (rows_url g),
         top_keyword_volume = top_volumes (rows_url g),
         avg_position = avg,
         keyword_count = length (keyword_list g),
         total_volume = py_sum (volume_list g),
         keyword_text =
           join_lines (map (str_cell (NaN \<in> set (map keyword df))) (keyword_list g)),
         volume_text = vtext,
         position_text =
           join_lines (map (str_number (column_is_float (map position df))) (position_list g))\<rparr>)"

text \<open>
  \<^verbatim>\<open>cluster_keywords\<close>, lines 58 to 114. \<open>Inl e\<close> is the handler of line 112: the exception
  \<open>e\<close> is reported and \<^verbatim>\<open>None\<close> is returned. \<open>Inr rows\<close> is the returned result frame. The
  columns are computed one after the other, each over all the groups, as in the source.
\<close>

definition cluster_keywords :: "argsort \<Rightarrow> dataframe \<Rightarrow> exn + url_group list" where
  "cluster_keywords f df =
     (let df_sorted = sort_values_volume f df
      in case top_loop df_sorted (unique (map url df_sorted)) (Map.empty, Map.empty) of
           Inl e \<Rightarrow> Inl e
         | Inr (top_keywords, top_volumes) \<Rightarrow>
             (let grouped = groupby_url df_sorted
              in case apply_col (\<lambda>g. avg_position_of (position_list g)) grouped of
                   Inl e \<Rightarrow> Inl e
                 | Inr avgs \<Rightarrow>
                     (case apply_col (\<lambda>g. volume_text_of (volume_list g)) grouped of
                        Inl e \<Rightarrow> Inl e
                      | Inr vtexts \<Rightarrow>
                          (let result = map (result_row df_sorted top_keywords top_volumes)
                                          (zip grouped (zip avgs vtexts))
                           in Inr (take_rows result
                                     (nargsort f True (map top_keyword_volume result)))))))"

section \<open>process_file\<close>

text \<open>
  The uploaded file is a byte stream with a read position. \<^verbatim>\<open>pd.read_csv\<close> reads from the
  position on and moves it; \<^verbatim>\<open>seek(0)\<close> puts it back to the start.
\<close>

type_synonym bytes = "char list"

record upload =
  content :: bytes
  pos :: nat

datatype encoding = UTF16 | UTF8

text \<open>
  A parsed table as \<^verbatim>\<open>read_csv\<close> returns it: the column labels in file order, each with its
  column. With \<^verbatim>\<open>quoting=3\<close> a quote is an ordinary character, so the labels and the cells of
  a quoted export keep their quotes. A column of texts has dtype \<^verbatim>\<open>object\<close> (pandas 1 and
  2); a column in which every filled cell is a number has a numeric dtype. An empty cell is NaN.
\<close>

datatype column = Obj "string option list" | Numeric "int option list"

type_synonym frame = "(string \<times> column) list"

text \<open>
  The library functions the program calls, as parameters of the model: the reader of
  \<^verbatim>\<open>read_csv(..., sep='\t', encoding=..., quoting=3)\<close> on the bytes left in the stream (the
  frame or the exception, and the number of bytes it took from the stream), the parser of
  \<^verbatim>\<open>pd.to_numeric(..., errors='coerce')\<close> for one text (\<open>None\<close> is NaN), and the argsort of
  the default sort kind.
\<close>

record library =
  parse_csv :: "encoding \<Rightarrow> bytes \<Rightarrow> (exn + frame) \<times> nat"
  to_number :: "string \<Rightarrow> int option"
  default_argsort :: argsort

definition read_csv :: "library \<Rightarrow> encoding \<Rightarrow> upload \<Rightarrow> (exn + frame) \<times> upload" where
  "read_csv lib enc file =
     (case parse_csv lib enc (drop (pos file) (content file)) of
        (r, n) \<Rightarrow> (r, file\<lparr>pos := pos file + n\<rparr>))"

definition seek :: "upload \<Rightarrow> nat \<Rightarrow> upload" where
  "seek file p = file\<lparr>pos := p\<rparr>"

text \<open>
  Lines 9 to 23. \<^verbatim>\<open>except UnicodeError\<close> catches a decoding failure (UnicodeDecodeError is a
  UnicodeError) and nothing else. Next to the outcome, the function returns the list of
  the reader calls it made, each with its encoding and the stream position at the call.
\<close>

definition load_table :: "library \<Rightarrow> upload \<Rightarrow> (exn + frame) \<times> (encoding \<times> nat) list" where
  "load_table lib uploaded_file =
     (case read_csv lib UTF16 uploaded_file of
        (Inr df, _) \<Rightarrow> (Inr df, [(UTF16, pos uploaded_file)])
      | (Inl e, file1) \<Rightarrow>
          if e = UnicodeError then
            (let file2 = seek file1 0
             in (fst (read_csv lib UTF8 file2),
                 [(UTF16, pos uploaded_file), (UTF8, pos file2)]))
          else (Inl e, [(UTF16, pos uploaded_file)]))"

text \<open>The quoted source names of lines 27 and 28, and the renaming of lines 29 to 39.\<close>

definition quoted :: "string \<Rightarrow> string" where
  "quoted s = CHR 0x22 # s @ [CHR 0x22]"

definition column_names :: "(string \<times> string) list" where
  "column_names =
     [(quoted ''Keyword'', ''keyword''),
      (quoted ''Volume'', ''volume''),
      (quoted ''Current position'', ''position''),
      (quoted ''Current URL'', ''url''),
      (quoted ''Branded'', ''branded''),
      (quoted ''Local'', ''local''),
      (quoted ''Informational'', ''informational''),
      (quoted ''Commercial'', ''commercial''),
      (quoted ''Transactional'', ''transactional'')]"

text \<open>
  \<^verbatim>\<open>df[[...]]\<close>: the listed columns in the listed order; KeyError, naming the labels that
  the frame does not have, when one is missing.
\<close>

definition select_columns :: "string list \<Rightarrow> frame \<Rightarrow> exn + frame" where
  "select_columns names df =
     (let missing = filter (\<lambda>n. n \<notin> set (map fst df)) names
      in if missing \<noteq> [] then Inl (KeyError missing)
         else Inr (map (\<lambda>n. (n, the (map_of df n))) names))"

definition rename_columns :: "(string \<times> string) list \<Rightarrow> frame \<Rightarrow> frame" where
  "rename_columns names df =
     map (\<lambda>(n, c). (case map_of names n of None \<Rightarrow> n | Some n' \<Rightarrow> n', c)) df"

text \<open>
  Python's \<^verbatim>\<open>str.strip(chars)\<close>: every leading and every trailing character that is one of
  \<open>chars\<close> is removed. \<^verbatim>\<open>Series.str.strip\<close> applies it to each text and leaves NaN.
\<close>

definition py_strip :: "string \<Rightarrow> string \<Rightarrow> string" where
  "py_strip chars s =
     rev (dropWhile (\<lambda>c. c \<in> set chars) (rev (dropWhile (\<lambda>c. c \<in> set chars) s)))"

text \<open>Lines 42 to 44, for one column: only a column of dtype \<^verbatim>\<open>object\<close> is stripped.\<close>

definition strip_column :: "column \<Rightarrow> column" where
  "strip_column c =
     (case c of
        Obj cells \<Rightarrow> Obj (map (map_option (py_strip [CHR 0x22])) cells)
      | Numeric ns \<Rightarrow> Numeric ns)"

text \<open>
  Line 47: \<^verbatim>\<open>.str\<close> raises AttributeError on a column that is not of texts;
  \<^verbatim>\<open>.str.replace(',', '')\<close> removes every comma; \<^verbatim>\<open>to_numeric\<close> keeps NaN.
\<close>

definition volume_to_numeric :: "library \<Rightarrow> column \<Rightarrow> exn + column" where
  "volume_to_numeric lib c =
     (case c of
        Numeric ns \<Rightarrow> Inl AttributeError
      | Obj cells \<Rightarrow>
          Inr (Numeric (map (\<lambda>x. case x of
                                   None \<Rightarrow> None
                                 | Some s \<Rightarrow> to_number lib (filter (\<lambda>ch. ch \<noteq> CHR '','') s))
                          cells)))"

text \<open>Line 48: \<^verbatim>\<open>to_numeric\<close> leaves a numeric column as it is.\<close>

definition position_to_numeric :: "library \<Rightarrow> column \<Rightarrow> column" where
  "position_to_numeric lib c =
     (case c of
        Numeric ns \<Rightarrow> Numeric ns
      | Obj cells \<Rightarrow>
          Numeric (map (\<lambda>x. case x of None \<Rightarrow> None | Some s \<Rightarrow> to_number lib s) cells))"

text \<open>\<^verbatim>\<open>df_cleaned[name] = column\<close> on a frame that has the column.\<close>

definition set_column :: "string \<Rightarrow> column \<Rightarrow> frame \<Rightarrow> frame" where
  "set_column name c df = map (\<lambda>(n, x). if n = name then (n, c) else (n, x)) df"

text \<open>Lines 26 to 50: from the parsed frame to the cleaned one.\<close>

definition clean_table :: "library \<Rightarrow> frame \<Rightarrow> exn + frame" where
  "clean_table lib df =
     (case select_columns (map fst column_names) df of
        Inl e \<Rightarrow> Inl e
      | Inr selected \<Rightarrow>
          (let df_cleaned = rename_columns column_names selected;
               df_cleaned = map (\<lambda>(n, c). (n, strip_column c)) df_cleaned
           in case volume_to_numeric lib (the (map_of df_cleaned ''volume'')) of
                Inl e \<Rightarrow> Inl e
              | Inr v \<Rightarrow>
                  (let df_cleaned = set_column ''volume'' v df_cleaned;
                       p = position_to_numeric lib (the (map_of df_cleaned ''position''))
                   in Inr (set_column ''position'' p df_cleaned))))"

text \<open>
  What the user is shown: \<^verbatim>\<open>st.error(prefix + str(e))\<close> and \<^verbatim>\<open>st.write(label, columns)\<close>.
\<close>

datatype ui_event = St_error string exn | St_write string "string list"

text \<open>
  \<^verbatim>\<open>process_file\<close>, lines 5 to 56: what is shown, and the cleaned frame or \<^verbatim>\<open>None\<close>. The
  handler of line 52 lists the columns of \<^verbatim>\<open>df\<close> only when \<^verbatim>\<open>df\<close> has been assigned, that
  is when a reader call has succeeded.
\<close>

definition process_file :: "library \<Rightarrow> upload \<Rightarrow> ui_event list \<times> frame option" where
  "process_file lib uploaded_file =
     (case fst (load_table lib uploaded_file) of
        Inl e \<Rightarrow> ([St_error ''Erreur lors du chargement: '' e], None)
      | Inr df \<Rightarrow>
          (case clean_table lib df of
             Inl e \<Rightarrow>
               ([St_error ''Erreur lors du chargement: '' e,
                 St_write ''Colonnes disponibles:'' (map fst df)], None)
           | Inr df_cleaned \<Rightarrow> ([], Some df_cleaned)))"

text \<open>The rows of the cleaned frame, as \<^verbatim>\<open>cluster_keywords\<close> reads them.\<close>

definition cells_of :: "column \<Rightarrow> cell list" where
  "cells_of c =
     (case c of
        Obj xs \<Rightarrow> map (\<lambda>x. case x of None \<Rightarrow> NaN | Some s \<Rightarrow> Str s) xs
      | Numeric ns \<Rightarrow> map (\<lambda>x. case x of None \<Rightarrow> NaN | Some n \<Rightarrow> Num n) ns)"

definition numbers_of :: "column \<Rightarrow> int option list" where
  "numbers_of c = (case c of Obj xs \<Rightarrow> map (\<lambda>x. None) xs | Numeric ns \<Rightarrow> ns)"

definition rows_of :: "frame \<Rightarrow> dataframe" where
  "rows_of df =
     (let col = (\<lambda>n. the (map_of df n))
      in map (\<lambda>i.
              \<lparr>keyword = cells_of (col ''keyword'') ! i,
               volume = numbers_of (col ''volume'') ! i,
               position = numbers_of (col ''position'') ! i,
               url = cells_of (col ''url'') ! i,
               branded = cells_of (col ''branded'') ! i,
               local_flag = cells_of (col ''local'') ! i,
               informational = cells_of (col ''informational'') ! i,
               commercial = cells_of (col ''commercial'') ! i,
               transactional = cells_of (col ''transactional'') ! i\<rparr>)
           [0..<length (cells_of (col ''keyword''))])"

text \<open>
  \<^verbatim>\<open>main\<close>, lines 194 to 200: \<^verbatim>\<open>cluster_keywords\<close> is called only with a frame that
  \<^verbatim>\<open>process_file\<close> returned; its handler (line 113) shows the exception.
\<close>

definition main_flow :: "library \<Rightarrow> upload \<Rightarrow> ui_event list \<times> url_group list option" where
  "main_flow lib uploaded_file =
     (case process_file lib uploaded_file of
        (shown, None) \<Rightarrow> (shown, None)
      | (shown, Some df) \<Rightarrow>
          (case cluster_keywords (default_argsort lib) (rows_of df) of
             Inl e \<Rightarrow> (shown @ [St_error ''Erreur lors du clustering: '' e], None)
           | Inr results \<Rightarrow> (shown, Some results)))"

section \<open>cluster_keywords on a store\<close>

text \<open>
  The objects \<^verbatim>\<open>cluster_keywords\<close> works on, in a store: Python variables hold addresses,
  and a pandas call either makes a new object or changes one in place. A frame of keyword
  records is held by its rows; the frames \<^verbatim>\<open>grouped\<close> and \<^verbatim>\<open>result\<close> are held by their named
  columns, because the code adds and replaces columns of \<^verbatim>\<open>grouped\<close> one at a time.
\<close>

datatype colvals =
    Cells (cells: "cell list")
  | Cell_lists (cell_lists: "cell list list")
  | Numbers (numbers: "int option list")
  | Number_lists (number_lists: "int option list list")
  | Counts (counts: "nat list")
  | Means (means: "rat option list")
  | Texts (texts: "string list")

type_synonym table = "(string \<times> colvals) list"

datatype obj =
    Records (records: dataframe)
  | Keyword_dict (keyword_dict: "cell \<rightharpoonup> cell")
  | Volume_dict (volume_dict: "cell \<rightharpoonup> int")
  | Table (table: table)

type_synonym addr = nat

type_synonym heap = "obj list"

definition alloc :: "obj \<Rightarrow> heap \<Rightarrow> addr \<times> heap" where
  "alloc x h = (length h, h @ [x])"

definition store :: "addr \<Rightarrow> obj \<Rightarrow> heap \<Rightarrow> heap" where
  "store a x h = h[a := x]"

text \<open>\<^verbatim>\<open>frame[name] = values\<close>: the column is replaced, or added as the last one.\<close>

definition assign :: "string \<Rightarrow> colvals \<Rightarrow> table \<Rightarrow> table" where
  "assign name c t =
     (if name \<in> set (map fst t)
      then map (\<lambda>(n, x). if n = name then (n, c) else (n, x)) t
      else t @ [(name, c)])"

definition assign_at :: "addr \<Rightarrow> string \<Rightarrow> colvals \<Rightarrow> heap \<Rightarrow> heap" where
  "assign_at g name c h = store g (Table (assign name c (table (h ! g)))) h"

definition column_at :: "heap \<Rightarrow> addr \<Rightarrow> string \<Rightarrow> colvals" where
  "column_at h g name = the (map_of (table (h ! g)) name)"

text \<open>The rows at the positions of an indexer, for a column of any kind.\<close>

definition take_column :: "nat list \<Rightarrow> colvals \<Rightarrow> colvals" where
  "take_column ix c =
     (case c of
        Cells xs \<Rightarrow> Cells (take_rows xs ix)
      | Cell_lists xs \<Rightarrow> Cell_lists (take_rows xs ix)
      | Numbers xs \<Rightarrow> Numbers (take_rows xs ix)
      | Number_lists xs \<Rightarrow> Number_lists (take_rows xs ix)
      | Counts xs \<Rightarrow> Counts (take_rows xs ix)
      | Means xs \<Rightarrow> Means (take_rows xs ix)
      | Texts xs \<Rightarrow> Texts (take_rows xs ix))"

text \<open>
  Lines 67 to 71 on the store: \<open>s\<close> is the address of \<^verbatim>\<open>df_sorted\<close>, \<open>tk\<close> and \<open>tv\<close> are
  the addresses of the two dictionaries. Each pass makes the frame \<^verbatim>\<open>url_df\<close> and, when it
  has a row, writes to the dictionaries.
\<close>

fun top_loop_at :: "addr \<Rightarrow> addr \<Rightarrow> addr \<Rightarrow> cell list \<Rightarrow> heap \<Rightarrow> (exn + unit) \<times> heap" where
  "top_loop_at s tk tv [] h = (Inr (), h)"
| "top_loop_at s tk tv (u # us) h =
     (case alloc (Records (filter (\<lambda>r. cell_eq (url r) u) (records (h ! s)))) h of
        (url_df, h1) \<Rightarrow>
          (case records (h1 ! url_df) of
             [] \<Rightarrow> top_loop_at s tk tv us h1
           | r # _ \<Rightarrow>
               (let h2 = store tk (Keyword_dict ((keyword_dict (h1 ! tk))(u \<mapsto> keyword r))) h1
                in case volume r of
                     None \<Rightarrow> (Inl ValueError, h2)
                   | Some v \<Rightarrow>
                       top_loop_at s tk tv us
                         (store tv (Volume_dict ((volume_dict (h2 ! tv))(u \<mapsto> v))) h2))))"

text \<open>
  A step that may raise, followed by the rest: an exception ends the function with the
  store as it is then.
\<close>

definition and_then ::
  "(exn + 'a) \<times> heap \<Rightarrow> ('a \<Rightarrow> heap \<Rightarrow> (exn + 'b) \<times> heap) \<Rightarrow> (exn + 'b) \<times> heap" where
  "and_then m k = (case m of (Inl e, h) \<Rightarrow> (Inl e, h) | (Inr x, h) \<Rightarrow> k x h)"

text \<open>
  Lines 62 to 71. \<^verbatim>\<open>sort_values\<close> is called without \<^verbatim>\<open>inplace\<close> and returns a new frame;
  the two dictionaries are new objects. The outcome is the addresses of \<^verbatim>\<open>df_sorted\<close>,
  \<^verbatim>\<open>top_keywords\<close> and \<^verbatim>\<open>top_volumes\<close>.
\<close>

definition sort_and_tops_at ::
  "argsort \<Rightarrow> addr \<Rightarrow> heap \<Rightarrow> (exn + addr \<times> addr \<times> addr) \<times> heap" where
  "sort_and_tops_at f df h0 =
     (case alloc (Records (sort_values_volume f (records (h0 ! df)))) h0 of (df_sorted, h1) \<Rightarrow>
      case alloc (Keyword_dict Map.empty) h1 of (top_keywords, h2) \<Rightarrow>
      case alloc (Volume_dict Map.empty) h2 of (top_volumes, h3) \<Rightarrow>
      and_then
        (top_loop_at df_sorted top_keywords top_volumes
           (unique (map url (records (h3 ! df_sorted)))) h3)
        (\<lambda>_ h4. (Inr (df_sorted, top_keywords, top_volumes), h4)))"

text \<open>Lines 74 to 78: \<^verbatim>\<open>groupby(...).agg(...)\<close> returns a new frame, \<^verbatim>\<open>grouped\<close>.\<close>

definition groupby_at :: "addr \<Rightarrow> heap \<Rightarrow> addr \<times> heap" where
  "groupby_at df_sorted h =
     alloc
       (let by_url = groupby_url (records (h ! df_sorted))
        in Table [(''url'', Cells (map rows_url by_url)),
                  (''keyword'', Cell_lists (map keyword_list by_url)),
                  (''position'', Number_lists (map position_list by_url)),
                  (''volume'', Number_lists (map volume_list by_url))]) h"

text \<open>Lines 81 to 87: five columns are added to \<^verbatim>\<open>grouped\<close>, in place.\<close>

definition metrics_at :: "addr \<Rightarrow> addr \<Rightarrow> addr \<Rightarrow> heap \<Rightarrow> (exn + unit) \<times> heap" where
  "metrics_at grouped top_keywords top_volumes h5 =
     (let h6 = assign_at grouped ''keyword_count''
                 (Counts (map length (cell_lists (column_at h5 grouped ''keyword'')))) h5;
          h7 = assign_at grouped ''total_volume''
                 (Numbers (map py_sum (number_lists (column_at h6 grouped ''volume'')))) h6
      in case apply_col avg_position_of (number_lists (column_at h7 grouped ''position'')) of
           Inl e \<Rightarrow> (Inl e, h7)
         | Inr avgs \<Rightarrow>
             (let h8 = assign_at grouped ''avg_position'' (Means avgs) h7;
                  h9 = assign_at grouped ''top_keyword''
                         (Cells (map (map_dict (keyword_dict (h8 ! top_keywords)))
                                   (cells (column_at h8 grouped ''url'')))) h8
              in (Inr (),
                  assign_at grouped ''top_keyword_volume''
                    (Numbers (map (volume_dict (h9 ! top_volumes))
                                (cells (column_at h9 grouped ''url'')))) h9)))"

text \<open>Lines 90 to 92: the three list columns of \<^verbatim>\<open>grouped\<close> are replaced by texts, in place.\<close>

definition format_at :: "addr \<Rightarrow> addr \<Rightarrow> heap \<Rightarrow> (exn + unit) \<times> heap" where
  "format_at grouped df_sorted h10 =
     (let h11 = assign_at grouped ''keyword''
                  (Texts (map (\<lambda>x. join_lines
                                      (map (str_cell (NaN \<in> set (map keyword (records (h10 ! df_sorted))))) x))
                            (cell_lists (column_at h10 grouped ''keyword'')))) h10;
          h12 = assign_at grouped ''position''
                  (Texts (map (\<lambda>x. join_lines
                                      (map (str_number
                                              (column_is_float (map position (records (h11 ! df_sorted))))) x))
                            (number_lists (column_at h11 grouped ''position'')))) h11
      in case apply_col volume_text_of (number_lists (column_at h12 grouped ''volume'')) of
           Inl e \<Rightarrow> (Inl e, h12)
         | Inr vtexts \<Rightarrow> (Inr (), assign_at grouped ''volume'' (Texts vtexts) h12))"

text \<open>
  Lines 95 to 110: the column selection and the final \<^verbatim>\<open>sort_values\<close> each return a new
  frame; the address of the second is returned.
\<close>

definition result_at :: "argsort \<Rightarrow> addr \<Rightarrow> heap \<Rightarrow> addr \<times> heap" where
  "result_at f grouped h13 =
     (case alloc
             (Table (map (\<lambda>n. (n, column_at h13 grouped n))
                       [''url'', ''top_keyword'', ''top_keyword_volume'', ''avg_position'',
                        ''keyword_count'', ''total_volume'', ''keyword'', ''volume'',
                        ''position''])) h13 of
        (result, h14) \<Rightarrow>
          alloc
            (Table (map (\<lambda>(n, c).
                           (n, take_column
                                 (nargsort f True
                                    (numbers (column_at h14 result ''top_keyword_volume'')))
                                 c))
                      (table (h14 ! result)))) h14)"

text \<open>
  \<^verbatim>\<open>cluster_keywords(df)\<close> with \<open>df\<close> the address of the argument: the outcome (the
  address of the returned frame, or the exception that the handler reports) and the
  store afterwards.
\<close>

definition cluster_keywords_at :: "argsort \<Rightarrow> addr \<Rightarrow> heap \<Rightarrow> (exn + addr) \<times> heap" where
  "cluster_keywords_at f df h0 =
     and_then (sort_and_tops_at f df h0)
       (\<lambda>(df_sorted, top_keywords, top_volumes) h4.
          case groupby_at df_sorted h4 of
            (grouped, h5) \<Rightarrow>
              and_then (metrics_at grouped top_keywords top_volumes h5)
                (\<lambda>_ h10.
                   and_then (format_at grouped df_sorted h10)
                     (\<lambda>_ h13. case result_at f grouped h13 of (result, h15) \<Rightarrow> (Inr result, h15))))"

text \<open>The rows of a result frame held by its columns.\<close>

definition groups_of :: "table \<Rightarrow> url_group list" where
  "groups_of t =
     (let col = (\<lambda>n. the (map_of t n))
      in map (\<lambda>i.
              \<lparr>group_url = cells (col ''url'') ! i,
               top_keyword = cells (col ''top_keyword'') ! i,
               top_keyword_volume = numbers (col ''top_keyword_volume'') ! i,
               avg_position = means (col ''avg_position'') ! i,
               keyword_count = counts (col ''keyword_count'') ! i,
               total_volume = numbers (col ''total_volume'') ! i,
               keyword_text = texts (col ''keyword'') ! i,
               volume_text = texts (col ''volume'') ! i,
               position_text = texts (col ''position'') ! i\<rparr>)
           [0..<length (cells (col ''url''))])"

text \<open>Every object of the store \<open>h0\<close> is still in \<open>h\<close>, at its address and unchanged.\<close>

definition extends :: "heap \<Rightarrow> heap \<Rightarrow> bool" where
  "extends h0 h \<longleftrightarrow> length h0 \<le> length h \<and> (\<forall>b<length h0. h ! b = h0 ! b)"

section \<open>Notions for the statements, and examples\<close>

text \<open>
  Volume descending with NaN last, as a relation between an earlier and a later value of
  the sorted column.
\<close>

definition volume_ge :: "int option \<Rightarrow> int option \<Rightarrow> bool" where
  "volume_ge a b =
     (case a of None \<Rightarrow> b = None | Some x \<Rightarrow> (case b of None \<Rightarrow> True | Some y \<Rightarrow> y \<le> x))"

text \<open>
  The row of the result for one group once both fallible columns have been computed
  without an exception (used to state what a returned result holds).
\<close>

definition completed_row ::
  "dataframe \<Rightarrow> (cell \<rightharpoonup> cell) \<Rightarrow> (cell \<rightharpoonup> int) \<Rightarrow> url_rows \<Rightarrow> url_group" where
  "completed_row df tk tv g =
     result_row df tk tv
       (g, projr (avg_position_of (position_list g)), projr (volume_text_of (volume_list g)))"


text \<open>
  A library for the examples. Its reader knows two files by their bytes and fails to
  decode anything else; decoding as UTF-16 fails after two bytes (no byte order mark), as
  it does on a UTF-8 export. Its number parser reads a text of decimal digits.
\<close>

definition demo_to_number :: "string \<Rightarrow> int option" where
  "demo_to_number s =
     (if s \<noteq> [] \<and> list_all (\<lambda>c. c \<in> set ''0123456789'') s
      then Some (int (foldl (\<lambda>a c. 10 * a + (of_char c - 48)) 0 s))
      else None)"

definition demo_export :: frame where
  "demo_export =
     [(''#'', Numeric [Some 1, Some 2]),
      (quoted ''Keyword'', Obj [Some (quoted ''shoes''), Some (quoted (quoted ''boots''))]),
      (quoted ''Volume'', Obj [Some (quoted ''1,000''), Some (quoted ''n/a'')]),
      (quoted ''Current position'', Obj [Some (quoted ''3''), Some (quoted ''5'')]),
      (quoted ''Current URL'', Obj [Some (quoted ''/a''), Some (quoted ''/b'')]),
      (quoted ''Branded'', Obj [Some (quoted ''false''), Some (quoted ''false'')]),
      (quoted ''Local'', Obj [Some (quoted ''false''), Some (quoted ''true'')]),
      (quoted ''Informational'', Obj [Some (quoted ''true''), None]),
      (quoted ''Commercial'', Obj [Some (quoted ''false''), Some (quoted ''false'')]),
      (quoted ''Transactional'', Obj [Some (quoted ''false''), Some (quoted ''false'')])]"


definition demo_export_without_url :: frame where
  "demo_export_without_url =
     [(quoted ''Keyword'', Obj [Some (quoted ''shoes'')]),
      (quoted ''Volume'', Obj [Some (quoted ''1,000'')]),
      (quoted ''Current position'', Obj [Some (quoted ''3'')]),
      (quoted ''Branded'', Obj [Some (quoted ''false'')]),
      (quoted ''Local'', Obj [Some (quoted ''false'')]),
      (quoted ''Informational'', Obj [Some (quoted ''true'')]),
      (quoted ''Commercial'', Obj [Some (quoted ''false'')]),
      (quoted ''Transactional'', Obj [Some (quoted ''false'')])]"

definition demo_parse :: "encoding \<Rightarrow> bytes \<Rightarrow> (exn + frame) \<times> nat" where
  "demo_parse enc bs =
     (case enc of
        UTF16 \<Rightarrow> (Inl UnicodeError, min 2 (length bs))
      | UTF8 \<Rightarrow>
          (if bs = ''export'' then Inr demo_export
           else if bs = ''export without url'' then Inr demo_export_without_url
           else Inl UnicodeError,
           length bs))"

definition demo_library :: library where
  "demo_library =
     \<lparr>parse_csv = demo_parse, to_number = demo_to_number, default_argsort = stable_argsort\<rparr>"

text \<open>A row of an export for the examples below; the category flags are not read.\<close>

definition kw :: "string \<Rightarrow> int option \<Rightarrow> int option \<Rightarrow> string \<Rightarrow> keyword_record" where
  "kw k v p u =
     \<lparr>keyword = Str k, volume = v, position = p, url = Str u,
      branded = Str ''false'', local_flag = Str ''false'', informational = Str ''false'',
      commercial = Str ''false'', transactional = Str ''false''\<rparr>"

text \<open>
  Scenario A of the specification and the result the code returns for it (with a stable
  library sort), the groups in ascending order of \<^verbatim>\<open>top_keyword_volume\<close>.
\<close>

definition scenario_a :: dataframe where
  "scenario_a =
     [kw ''shoes'' (Some 1000) (Some 3) ''/a'',
      kw ''sneakers'' (Some 500) (Some 5) ''/a'',
      kw ''boots'' (Some 2000) (Some 1) ''/b'']"

definition result_a :: "url_group list" where
  "result_a =
     [\<lparr>group_url = Str ''/a'', top_keyword = Str ''shoes'', top_keyword_volume = Some 1000,
       avg_position = Some 4, keyword_count = 2, total_volume = Some 1500,
       keyword_text = ''shoes'' @ [CHR 0x0A] @ ''sneakers'',
       volume_text = ''1000'' @ [CHR 0x0A] @ ''500'',
       position_text = ''3'' @ [CHR 0x0A] @ ''5''\<rparr>,
      \<lparr>group_url = Str ''/b'', top_keyword = Str ''boots'', top_keyword_volume = Some 2000,
       avg_position = Some 1, keyword_count = 1, total_volume = Some 2000,
       keyword_text = ''boots'', volume_text = ''2000'', position_text = ''1''\<rparr>]"

text \<open>
  Two urls whose top keywords have the same volume; \<^verbatim>\<open>/b\<close> comes first in the input, and
  the result the code returns for it with a stable library sort.
\<close>

definition equal_tops :: dataframe where
  "equal_tops = [kw ''k1'' (Some 100) (Some 3) ''/b'', kw ''k2'' (Some 100) (Some 5) ''/a'']"

definition equal_tops_result :: "url_group list" where
  "equal_tops_result =
     [\<lparr>group_url = Str ''/a'', top_keyword = Str ''k2'', top_keyword_volume = Some 100,
       avg_position = Some 5, keyword_count = 1, total_volume = Some 100,
       keyword_text = ''k2'', volume_text = ''100'', position_text = ''5''\<rparr>,
      \<lparr>group_url = Str ''/b'', top_keyword = Str ''k1'', top_keyword_volume = Some 100,
       avg_position = Some 3, keyword_count = 1, total_volume = Some 100,
       keyword_text = ''k1'', volume_text = ''100'', position_text = ''3''\<rparr>]"

text \<open>Scenario B: one url, one record with a volume and one whose volume is null.\<close>

definition scenario_b :: dataframe where
  "scenario_b = [kw ''shoes'' (Some 1000) (Some 3) ''/a'', kw ''sandals'' None (Some 5) ''/a'']"

section \<open>Properties of the library's sort\<close>

lemma argsort_ok_set: "argsort_ok f \<Longrightarrow> set (f ks) = {0..<length ks}"
  unfolding argsort_ok_def by (metis mset_eq_setD set_upt)

lemma argsort_ok_length: "argsort_ok f \<Longrightarrow> length (f ks) = length ks"
  unfolding argsort_ok_def by (metis length_upt mset_eq_length minus_nat.diff_0)

lemma argsort_ok_sorted: "argsort_ok f \<Longrightarrow> sorted (map ((!) ks) (f ks))"
  unfolding argsort_ok_def by blast

lemma argsort_ok_mset: "argsort_ok f \<Longrightarrow> mset (f ks) = mset [0..<length ks]"
  unfolding argsort_ok_def by blast

lemma stable_argsort_ok: "argsort_ok stable_argsort"
  unfolding argsort_ok_def stable_argsort_def by (simp add: sorted_sort_key)


lemma take_rows_perm:
  assumes "mset p = mset [0..<length xs]"
  shows "mset (take_rows xs p) = mset xs"
proof -
  have "mset (map ((!) xs) p) = image_mset ((!) xs) (mset p)" by simp
  also have "\<dots> = mset (map ((!) xs) [0..<length xs])" using assms by simp
  also have "\<dots> = mset xs" by (simp add: map_nth)
  finally show ?thesis by (simp add: take_rows_def)
qed


lemma argsort_take_keys:
  assumes "argsort_ok f"
  shows "map key (map ((!) xs) (f (map key xs))) = map ((!) (map key xs)) (f (map key xs))"
proof -
  have "\<forall>j\<in>set (f (map key xs)). j < length xs"
    using argsort_ok_set [OF assms, of "map key xs"] by simp
  then show ?thesis by simp
qed

lemma nargsort_split:
  assumes "argsort_ok f"
  shows "\<exists>ix. nargsort f asc items = ix @ filter (\<lambda>i. items ! i = None) [0..<length items]
           \<and> mset ix = mset (filter (\<lambda>i. items ! i \<noteq> None) [0..<length items])
           \<and> (if asc then sorted (map (\<lambda>i. the (items ! i)) ix)
               else sorted (rev (map (\<lambda>i. the (items ! i)) ix)))"
proof -
  define nn where "nn = filter (\<lambda>i. items ! i \<noteq> None) [0..<length items]"
  define nni where "nni = (if asc then nn else rev nn)"
  define key where "key = (\<lambda>i. the (items ! i))"
  define l where "l = map ((!) nni) (f (map key nni))"
  have perm: "mset l = mset nni"
    using take_rows_perm [of "f (map key nni)" nni] argsort_ok_mset [OF assms, of "map key nni"]
    by (simp add: l_def take_rows_def)
  have "map key l = map ((!) (map key nni)) (f (map key nni))"
    unfolding l_def by (rule argsort_take_keys [OF assms])
  then have srt: "sorted (map key l)"
    using argsort_ok_sorted [OF assms, of "map key nni"] by simp
  have eq: "nargsort f asc items
      = (if asc then l else rev l) @ filter (\<lambda>i. items ! i = None) [0..<length items]"
    by (simp add: nargsort_def Let_def l_def nni_def nn_def key_def)
  have "mset (if asc then l else rev l) = mset nn"
    using perm by (simp add: nni_def)
  moreover have "if asc then sorted (map key (if asc then l else rev l))
                 else sorted (rev (map key (if asc then l else rev l)))"
    using srt by (simp add: rev_map)
  ultimately show ?thesis
    using eq unfolding nn_def key_def by blast
qed

lemma nargsort_perm:
  assumes "argsort_ok f"
  shows "mset (nargsort f asc items) = mset [0..<length items]"
proof -
  let ?idx = "[0..<length items]"
  obtain ix where
    eq: "nargsort f asc items = ix @ filter (\<lambda>i. items ! i = None) ?idx" and
    ix: "mset ix = mset (filter (\<lambda>i. items ! i \<noteq> None) ?idx)"
    using nargsort_split [OF assms, of asc items] by blast
  have "mset (nargsort f asc items)
      = mset (filter (\<lambda>i. items ! i \<noteq> None) ?idx) + mset (filter (\<lambda>i. items ! i = None) ?idx)"
    by (simp only: eq mset_append ix)
  also have "\<dots> = filter_mset (\<lambda>i. \<not> items ! i = None) (mset ?idx)
                  + filter_mset (\<lambda>i. items ! i = None) (mset ?idx)"
    by (simp only: mset_filter)
  also have "\<dots> = mset ?idx"
    by (metis multiset_partition union_commute)
  finally show ?thesis .
qed


lemma volume_ge_None [simp]: "volume_ge a None"
  by (simp add: volume_ge_def split: option.splits)



lemma sort_values_volume_perm:
  assumes "argsort_ok f"
  shows "mset (sort_values_volume f df) = mset df"
  unfolding sort_values_volume_def
  by (rule take_rows_perm) (use nargsort_perm [OF assms, of False "map volume df"] in simp)



section \<open>Properties of cluster_keywords\<close>

lemma apply_col_Inr:
  "apply_col h xs = Inr ys \<Longrightarrow> ys = map (\<lambda>x. projr (h x)) xs \<and> (\<forall>x\<in>set xs. \<exists>y. h x = Inr y)"
  by (induction xs arbitrary: ys) (auto split: sum.splits)

lemma apply_col_Inl:
  "apply_col h xs = Inl e \<Longrightarrow> \<exists>x\<in>set xs. h x = Inl e"
  by (induction xs) (auto split: sum.splits)

lemma apply_col_total:
  "\<forall>x\<in>set xs. \<exists>y. h x = Inr y \<Longrightarrow> apply_col h xs = Inr (map (\<lambda>x. projr (h x)) xs)"
  by (induction xs) auto

lemma zip_columns: "zip xs (zip (map a xs) (map b xs)) = map (\<lambda>x. (x, a x, b x)) xs"
  by (induction xs) auto

lemma py_sum_foldl: "foldl nan_add (Some s) (map Some vs) = Some (s + sum_list vs)"
  by (induction vs arbitrary: s) (auto simp: nan_add_def algebra_simps)

lemma py_sum_Some: "py_sum (map Some vs) = Some (sum_list vs)"
  using py_sum_foldl [of 0 vs] by (simp add: py_sum_def)

lemma py_sum_foldl_None: "foldl nan_add None xs = None"
  by (induction xs) (auto simp: nan_add_def)

lemma py_sum_foldl_nan: "None \<in> set xs \<Longrightarrow> foldl nan_add acc xs = None"
proof (induction xs arbitrary: acc)
  case Nil
  then show ?case by simp
next
  case (Cons x xs)
  show ?case
  proof (cases "x = None")
    case True
    then have "nan_add acc x = None"
      by (simp add: nan_add_def split: option.splits)
    then show ?thesis by (simp add: py_sum_foldl_None)
  next
    case False
    with Cons.prems have "None \<in> set xs" by auto
    then show ?thesis using Cons.IH by simp
  qed
qed

lemma py_sum_nan: "None \<in> set xs \<Longrightarrow> py_sum xs = None"
  by (simp add: py_sum_def py_sum_foldl_nan)

lemma volume_text_of_Inr:
  "volume_text_of x = Inr t \<Longrightarrow> \<exists>vs. x = map Some vs \<and> t = join_lines (map str_int vs)"
proof -
  assume a: "volume_text_of x = Inr t"
  then obtain vs where vs: "apply_col int_of_float x = Inr vs" and t: "t = join_lines (map str_int vs)"
    by (auto simp: volume_text_of_def split: sum.splits)
  have "\<forall>v\<in>set x. \<exists>n. int_of_float v = Inr n" and "vs = map (\<lambda>v. projr (int_of_float v)) x"
    using apply_col_Inr [OF vs] by auto
  then have "x = map Some vs"
    by (auto simp: int_of_float_def map_idI split: option.splits intro!: nth_equalityI)
  then show ?thesis using t by blast
qed

lemma volume_text_of_Inl:
  "volume_text_of x = Inl e \<Longrightarrow> e = ValueError \<and> None \<in> set x"
proof -
  assume "volume_text_of x = Inl e"
  then have "apply_col int_of_float x = Inl e"
    by (auto simp: volume_text_of_def split: sum.splits)
  then obtain v where "v \<in> set x" and "int_of_float v = Inl e"
    using apply_col_Inl by blast
  then have "v = None" "e = ValueError"
    by (simp_all add: int_of_float_def split: option.splits)
  with \<open>v \<in> set x\<close> show ?thesis by simp
qed

lemma volume_text_of_total:
  "volume_text_of (map Some vs) = Inr (join_lines (map str_int vs))"
proof -
  have "apply_col int_of_float (map Some vs) = Inr vs"
    by (induction vs) (auto simp: int_of_float_def)
  then show ?thesis by (simp add: volume_text_of_def)
qed

lemma filter_cell_eq:
  "filter (\<lambda>r. cell_eq (url r) u) ds = (if u = NaN then [] else filter (\<lambda>r. url r = u) ds)"
  by (auto simp: cell_eq_def intro: filter_cong)

lemma top_loop_Inr:
  "top_loop ds us (tk, tv) = Inr (tk', tv') \<Longrightarrow>
     tv' u = (if u \<in> set us \<and> filter (\<lambda>r. cell_eq (url r) u) ds \<noteq> []
              then volume (hd (filter (\<lambda>r. cell_eq (url r) u) ds)) else tv u)
   \<and> tk' u = (if u \<in> set us \<and> filter (\<lambda>r. cell_eq (url r) u) ds \<noteq> []
              then Some (keyword (hd (filter (\<lambda>r. cell_eq (url r) u) ds))) else tk u)"
proof (induction us arbitrary: tk tv)
  case Nil
  then show ?case by simp
next
  case (Cons w us)
  show ?case
  proof (cases "filter (\<lambda>r. cell_eq (url r) w) ds")
    case Nil
    then have "top_loop ds us (tk, tv) = Inr (tk', tv')"
      using Cons.prems by simp
    from Cons.IH [OF this] show ?thesis
      using Nil by auto
  next
    case (Cons r rs)
    then obtain v where v: "volume r = Some v"
      using Cons.prems by (auto split: option.splits)
    then have "top_loop ds us (tk(w \<mapsto> keyword r), tv(w \<mapsto> v)) = Inr (tk', tv')"
      using Cons.prems Cons by simp
    from Cons.IH [OF this] show ?thesis
      using Cons v by auto
  qed
qed

lemma top_loop_Inl:
  "top_loop ds us acc = Inl e \<Longrightarrow>
     e = ValueError \<and> (\<exists>u\<in>set us. \<exists>r rs. filter (\<lambda>r. cell_eq (url r) u) ds = r # rs \<and> volume r = None)"
proof (induction us arbitrary: acc)
  case Nil
  then show ?case by simp
next
  case (Cons w us)
  obtain tk tv where acc: "acc = (tk, tv)" by (cases acc)
  show ?case
  proof (cases "filter (\<lambda>r. cell_eq (url r) w) ds")
    case Nil
    then have "top_loop ds us (tk, tv) = Inl e"
      using Cons.prems acc by simp
    from Cons.IH [OF this] show ?thesis by auto
  next
    case (Cons r rs)
    show ?thesis
    proof (cases "volume r")
      case None
      then show ?thesis using Cons.prems acc Cons by auto
    next
      case (Some v)
      then have "top_loop ds us (tk(w \<mapsto> keyword r), tv(w \<mapsto> v)) = Inl e"
        using Cons.prems acc Cons by simp
      from Cons.IH [OF this] show ?thesis by auto
    qed
  qed
qed

lemma top_loop_total:
  "\<forall>u\<in>set us. \<forall>r rs. filter (\<lambda>r. cell_eq (url r) u) ds = r # rs \<longrightarrow> volume r \<noteq> None
     \<Longrightarrow> \<exists>d. top_loop ds us acc = Inr d"
proof (cases "top_loop ds us acc")
  case (Inl e)
  assume "\<forall>u\<in>set us. \<forall>r rs. filter (\<lambda>r. cell_eq (url r) u) ds = r # rs \<longrightarrow> volume r \<noteq> None"
  then show ?thesis using top_loop_Inl [OF Inl] by blast
next
  case (Inr d)
  then show ?thesis by blast
qed

lemma set_unique [simp]: "set (unique xs) = set xs"
  by (induction xs rule: unique.induct) auto

lemma distinct_unique [simp]: "distinct (unique xs)"
  by (induction xs rule: unique.induct) auto

lemma set_group_keys: "set (group_keys df) = {u \<in> url ` set df. u \<noteq> NaN}"
  by (auto simp: group_keys_def)


lemma sorted_group_keys: "sorted (group_keys df)"
  by (simp add: group_keys_def)

lemma group_keys_cong: "set (map url ds) = set (map url df) \<Longrightarrow> group_keys ds = group_keys df"
proof -
  assume a: "set (map url ds) = set (map url df)"
  have "sort (remdups xs) = sorted_list_of_set (set xs)" for xs :: "cell list"
    by (simp add: sorted_list_of_set_sort_remdups)
  then show ?thesis
    using a by (simp add: group_keys_def del: set_map) 
qed

lemma nargsort_no_nan:
  assumes "argsort_ok f" and "None \<notin> set items"
  shows "sorted (map (\<lambda>i. the (items ! i)) (nargsort f True items))"
proof -
  obtain ix where
    eq: "nargsort f True items = ix @ filter (\<lambda>i. items ! i = None) [0..<length items]" and
    srt: "sorted (map (\<lambda>i. the (items ! i)) ix)"
    using nargsort_split [OF assms(1), of True items] by auto
  have "\<forall>i\<in>set [0..<length items]. \<not> items ! i = None"
    using assms(2) nth_mem by (metis atLeastLessThan_iff set_upt)
  then have "filter (\<lambda>i. items ! i = None) [0..<length items] = []"
    by (rule filter_False)
  then show ?thesis using eq srt by simp
qed

lemma take_rows_sorted:
  assumes "argsort_ok f" and "\<forall>r\<in>set rows. key r \<noteq> None"
  shows "sorted (map (\<lambda>r. the (key r)) (take_rows rows (nargsort f True (map key rows))))"
proof -
  let ?items = "map key rows"
  let ?ix = "nargsort f True ?items"
  have "None \<notin> set ?items" using assms(2) by auto
  then have srt: "sorted (map (\<lambda>i. the (?items ! i)) ?ix)"
    by (rule nargsort_no_nan [OF assms(1)])
  have "set ?ix = {0..<length rows}"
    using nargsort_perm [OF assms(1), of True ?items] by (metis length_map mset_eq_setD set_upt)
  then have "map (\<lambda>r. the (key r)) (map ((!) rows) ?ix) = map (\<lambda>i. the (?items ! i)) ?ix"
    by simp
  then show ?thesis
    unfolding take_rows_def using srt by (simp only:)
qed

lemma take_rows_nargsort_perm:
  assumes "argsort_ok f"
  shows "mset (take_rows rows (nargsort f asc (map key rows))) = mset rows"
  by (rule take_rows_perm) (use nargsort_perm [OF assms, of asc "map key rows"] in simp)

lemma cluster_keywords_Inr:
  assumes "cluster_keywords f df = Inr out"
  shows "\<exists>tk tv.
           top_loop (sort_values_volume f df) (unique (map url (sort_values_volume f df)))
             (Map.empty, Map.empty) = Inr (tk, tv)
         \<and> (\<forall>g\<in>set (groupby_url (sort_values_volume f df)).
               \<exists>t. volume_text_of (volume_list g) = Inr t)
         \<and> out = take_rows
                   (map (completed_row (sort_values_volume f df) tk tv)
                      (groupby_url (sort_values_volume f df)))
                   (nargsort f True
                      (map top_keyword_volume
                         (map (completed_row (sort_values_volume f df) tk tv)
                            (groupby_url (sort_values_volume f df)))))"
proof -
  define ds where "ds = sort_values_volume f df"
  obtain tk tv where top: "top_loop ds (unique (map url ds)) (Map.empty, Map.empty) = Inr (tk, tv)"
    using assms unfolding cluster_keywords_def ds_def Let_def
    by (auto split: sum.splits)
  obtain avgs where avgs: "apply_col (\<lambda>g. avg_position_of (position_list g)) (groupby_url ds) = Inr avgs"
    using assms top unfolding cluster_keywords_def ds_def Let_def
    by (auto split: sum.splits)
  obtain vtexts where vtexts: "apply_col (\<lambda>g. volume_text_of (volume_list g)) (groupby_url ds) = Inr vtexts"
    using assms top avgs unfolding cluster_keywords_def ds_def Let_def
    by (auto split: sum.splits)
  have a: "avgs = map (\<lambda>g. projr (avg_position_of (position_list g))) (groupby_url ds)"
    using apply_col_Inr [OF avgs] by simp
  have v: "vtexts = map (\<lambda>g. projr (volume_text_of (volume_list g))) (groupby_url ds)"
    and vt: "\<forall>g\<in>set (groupby_url ds). \<exists>t. volume_text_of (volume_list g) = Inr t"
    using apply_col_Inr [OF vtexts] by simp_all
  have rows: "map (result_row ds tk tv) (zip (groupby_url ds) (zip avgs vtexts))
            = map (completed_row ds tk tv) (groupby_url ds)"
    unfolding a v zip_columns by (simp add: completed_row_def)
  let ?R = "map (result_row ds tk tv) (zip (groupby_url ds) (zip avgs vtexts))"
  have "cluster_keywords f df = Inr (take_rows ?R (nargsort f True (map top_keyword_volume ?R)))"
    unfolding cluster_keywords_def ds_def [symmetric] Let_def top avgs vtexts by simp
  then have "out = take_rows ?R (nargsort f True (map top_keyword_volume ?R))"
    using assms by simp
  then have "out = take_rows (map (completed_row ds tk tv) (groupby_url ds))
                (nargsort f True (map top_keyword_volume (map (completed_row ds tk tv) (groupby_url ds))))"
    by (simp only: rows)
  then show ?thesis
    using top vt unfolding ds_def by blast
qed

lemma volume_ge_Some [simp]: "volume_ge (Some a) (Some b) \<longleftrightarrow> b \<le> a"
  by (simp add: volume_ge_def)



lemma completed_row_fields:
  assumes top: "top_loop ds (unique (map url ds)) (Map.empty, Map.empty) = Inr (tk, tv)"
    and u: "u \<in> set (group_keys ds)"
    and vt: "volume_text_of (volume_list (rows_of_key ds u)) = Inr t"
  shows "\<exists>vs. vs \<noteq> []
        \<and> map volume (filter (\<lambda>r. url r = u) ds) = map Some vs
        \<and> group_url (completed_row ds tk tv (rows_of_key ds u)) = u
        \<and> keyword_count (completed_row ds tk tv (rows_of_key ds u))
            = length (filter (\<lambda>r. url r = u) ds)
        \<and> total_volume (completed_row ds tk tv (rows_of_key ds u)) = Some (sum_list vs)
        \<and> volume_text (completed_row ds tk tv (rows_of_key ds u)) = join_lines (map str_int vs)
        \<and> top_keyword_volume (completed_row ds tk tv (rows_of_key ds u)) = Some (hd vs)
        \<and> top_keyword (completed_row ds tk tv (rows_of_key ds u))
            = keyword (hd (filter (\<lambda>r. url r = u) ds))"
proof -
  define rs where "rs = filter (\<lambda>r. url r = u) ds"
  have nan: "u \<noteq> NaN" and occurs: "u \<in> url ` set ds"
    using u by (auto simp: set_group_keys)
  then have rs_ne: "rs \<noteq> []"
    by (auto simp: rs_def filter_empty_conv)
  have vl: "volume_list (rows_of_key ds u) = map volume rs"
    by (simp add: rows_of_key_def rs_def Let_def)
  obtain vs where vs: "map volume rs = map Some vs" and t: "t = join_lines (map str_int vs)"
    using volume_text_of_Inr [OF vt] unfolding vl by blast
  have vs_ne: "vs \<noteq> []"
    using vs rs_ne by auto
  have first: "volume (hd rs) = Some (hd vs)"
    using vs rs_ne vs_ne by (metis hd_map)
  have eqf: "filter (\<lambda>r. cell_eq (url r) u) ds = rs"
    using nan by (simp add: filter_cell_eq rs_def)
  have mem: "u \<in> set (unique (map url ds))"
    using occurs by simp
  have tv: "tv u = Some (hd vs)" and tk: "tk u = Some (keyword (hd rs))"
    using top_loop_Inr [OF top, of u] mem rs_ne first unfolding eqf by simp_all
  have vtext: "projr (volume_text_of (volume_list (rows_of_key ds u))) = join_lines (map str_int vs)"
    using vt t by simp
  have total: "py_sum (volume_list (rows_of_key ds u)) = Some (sum_list vs)"
    unfolding vl vs by (rule py_sum_Some)
  have "group_url (completed_row ds tk tv (rows_of_key ds u)) = u"
    by (simp add: completed_row_def result_row_def rows_of_key_def Let_def)
  moreover have "keyword_count (completed_row ds tk tv (rows_of_key ds u)) = length rs"
    by (simp add: completed_row_def result_row_def rows_of_key_def rs_def Let_def)
  moreover have "total_volume (completed_row ds tk tv (rows_of_key ds u)) = Some (sum_list vs)"
    using total by (simp add: completed_row_def result_row_def)
  moreover have "volume_text (completed_row ds tk tv (rows_of_key ds u)) = join_lines (map str_int vs)"
    using vtext by (simp add: completed_row_def result_row_def)
  moreover have "top_keyword_volume (completed_row ds tk tv (rows_of_key ds u)) = Some (hd vs)"
    using tv by (simp add: completed_row_def result_row_def rows_of_key_def Let_def)
  moreover have "top_keyword (completed_row ds tk tv (rows_of_key ds u)) = keyword (hd rs)"
    using tk by (simp add: completed_row_def result_row_def rows_of_key_def map_dict_def Let_def)
  ultimately show ?thesis
    using vs vs_ne unfolding rs_def by blast
qed

lemma groupby_url_nonempty:
  "g \<in> set (groupby_url ds) \<Longrightarrow> position_list g \<noteq> [] \<and> volume_list g \<noteq> []"
  by (auto simp: groupby_url_def rows_of_key_def Let_def set_group_keys filter_empty_conv)

lemma cluster_keywords_Inl:
  assumes "cluster_keywords f df = Inl e"
  shows "e = ValueError"
proof -
  define ds where "ds = sort_values_volume f df"
  show ?thesis
  proof (cases "top_loop ds (unique (map url ds)) (Map.empty, Map.empty)")
    case (Inl e')
    then have "e' = e"
      using assms unfolding cluster_keywords_def ds_def [symmetric] Let_def by simp
    then show ?thesis using top_loop_Inl [OF Inl] by simp
  next
    case (Inr d)
    obtain tk tv where d: "d = (tk, tv)" by (cases d)
    show ?thesis
    proof (cases "apply_col (\<lambda>g. avg_position_of (position_list g)) (groupby_url ds)")
      case (Inl e')
      then obtain g where "g \<in> set (groupby_url ds)" and "avg_position_of (position_list g) = Inl e'"
        using apply_col_Inl by blast
      then have False
        using groupby_url_nonempty [of g ds] by (simp add: avg_position_of_def split: if_splits)
      then show ?thesis ..
    next
      case avg: (Inr avgs)
      show ?thesis
      proof (cases "apply_col (\<lambda>g. volume_text_of (volume_list g)) (groupby_url ds)")
        case (Inl e')
        then have "e' = e"
          using assms Inr d avg unfolding cluster_keywords_def ds_def [symmetric] Let_def by simp
        moreover obtain g where "g \<in> set (groupby_url ds)"
          and "volume_text_of (volume_list g) = Inl e'"
          using apply_col_Inl [OF Inl] by blast
        ultimately show ?thesis using volume_text_of_Inl by blast
      next
        case vt: (Inr vtexts)
        then show ?thesis
          using assms Inr d avg unfolding cluster_keywords_def ds_def [symmetric] Let_def by simp
      qed
    qed
  qed
qed

lemma cluster_keywords_rows:
  assumes ok: "argsort_ok f" and run: "cluster_keywords f df = Inr out"
  shows "\<exists>tk tv.
           top_loop (sort_values_volume f df) (unique (map url (sort_values_volume f df)))
             (Map.empty, Map.empty) = Inr (tk, tv)
         \<and> (\<forall>u\<in>set (group_keys (sort_values_volume f df)).
               \<exists>t. volume_text_of (volume_list (rows_of_key (sort_values_volume f df) u)) = Inr t)
         \<and> mset out = mset (map (\<lambda>u. completed_row (sort_values_volume f df) tk tv
                                        (rows_of_key (sort_values_volume f df) u))
                             (group_keys (sort_values_volume f df)))
         \<and> out = take_rows
                   (map (\<lambda>u. completed_row (sort_values_volume f df) tk tv
                                        (rows_of_key (sort_values_volume f df) u))
                             (group_keys (sort_values_volume f df)))
                   (nargsort f True
                      (map top_keyword_volume
                         (map (\<lambda>u. completed_row (sort_values_volume f df) tk tv
                                        (rows_of_key (sort_values_volume f df) u))
                             (group_keys (sort_values_volume f df)))))"
proof -
  define ds where "ds = sort_values_volume f df"
  obtain tk tv where
    top: "top_loop ds (unique (map url ds)) (Map.empty, Map.empty) = Inr (tk, tv)" and
    vt: "\<forall>g\<in>set (groupby_url ds). \<exists>t. volume_text_of (volume_list g) = Inr t" and
    out: "out = take_rows (map (completed_row ds tk tv) (groupby_url ds))
            (nargsort f True (map top_keyword_volume (map (completed_row ds tk tv) (groupby_url ds))))"
    using cluster_keywords_Inr [OF run] unfolding ds_def by blast
  have rows: "map (completed_row ds tk tv) (groupby_url ds)
            = map (\<lambda>u. completed_row ds tk tv (rows_of_key ds u)) (group_keys ds)"
    by (simp add: groupby_url_def)
  have "mset out = mset (map (completed_row ds tk tv) (groupby_url ds))"
    unfolding out by (rule take_rows_nargsort_perm [OF ok])
  then have "mset out = mset (map (\<lambda>u. completed_row ds tk tv (rows_of_key ds u)) (group_keys ds))"
    by (simp only: rows)
  moreover have "\<forall>u\<in>set (group_keys ds). \<exists>t. volume_text_of (volume_list (rows_of_key ds u)) = Inr t"
    using vt by (simp add: groupby_url_def)
  moreover have "out = take_rows (map (\<lambda>u. completed_row ds tk tv (rows_of_key ds u)) (group_keys ds))
            (nargsort f True (map top_keyword_volume
               (map (\<lambda>u. completed_row ds tk tv (rows_of_key ds u)) (group_keys ds))))"
    using out by (simp only: rows)
  ultimately show ?thesis
    using top unfolding ds_def by blast
qed

lemma sort_values_volume_urls:
  assumes "argsort_ok f"
  shows "set (map url (sort_values_volume f df)) = set (map url df)"
    and "length (filter P (sort_values_volume f df)) = length (filter P df)"
    and "length (sort_values_volume f df) = length df"
proof -
  have m: "mset (sort_values_volume f df) = mset df"
    by (rule sort_values_volume_perm [OF assms])
  then show "set (map url (sort_values_volume f df)) = set (map url df)"
    by (metis mset_eq_setD set_map)
  have "mset (filter P (sort_values_volume f df)) = mset (filter P df)"
    using m by (simp only: mset_filter)
  then show "length (filter P (sort_values_volume f df)) = length (filter P df)"
    by (rule mset_eq_length)
  show "length (sort_values_volume f df) = length df"
    using m by (rule mset_eq_length)
qed




lemma completed_row_url: "group_url (completed_row ds tk tv (rows_of_key ds u)) = u"
  by (simp add: completed_row_def result_row_def rows_of_key_def Let_def)


lemma perm_map: "mset xs = mset ys \<Longrightarrow> mset (map h xs) = mset (map h ys)"
  by simp


lemma argsort_ok_Nil: "argsort_ok f \<Longrightarrow> f [] = []"
  using argsort_ok_length [of f "[]"] by simp

text \<open>
  When \<^verbatim>\<open>cluster_keywords\<close> returns a result and when it does not: it returns one exactly
  when no record with a url has a null volume.
\<close>

lemma cluster_keywords_total:
  assumes ok: "argsort_ok f"
    and vols: "\<forall>r\<in>set df. url r \<noteq> NaN \<longrightarrow> volume r \<noteq> None"
  shows "\<exists>out. cluster_keywords f df = Inr out"
proof (cases "cluster_keywords f df")
  case (Inr out)
  then show ?thesis by blast
next
  case (Inl e)
  define ds where "ds = sort_values_volume f df"
  have set_ds: "set ds = set df"
    unfolding ds_def using sort_values_volume_perm [OF ok, of df] by (rule mset_eq_setD)
  have vols': "\<forall>r\<in>set ds. url r \<noteq> NaN \<longrightarrow> volume r \<noteq> None"
    using vols set_ds by simp
  have "\<forall>u\<in>set (unique (map url ds)). \<forall>r rs.
          filter (\<lambda>r. cell_eq (url r) u) ds = r # rs \<longrightarrow> volume r \<noteq> None"
  proof (intro ballI allI impI)
    fix u r rs assume "filter (\<lambda>r. cell_eq (url r) u) ds = r # rs"
    then have "r \<in> set (filter (\<lambda>r. cell_eq (url r) u) ds)" by simp
    then have "r \<in> set ds" "url r \<noteq> NaN" by (auto simp: cell_eq_def)
    then show "volume r \<noteq> None" using vols' by blast
  qed
  then obtain d where top: "top_loop ds (unique (map url ds)) (Map.empty, Map.empty) = Inr d"
    using top_loop_total by blast
  obtain tk tv where d: "d = (tk, tv)" by (cases d)
  have avg: "apply_col (\<lambda>g. avg_position_of (position_list g)) (groupby_url ds)
      = Inr (map (\<lambda>g. projr (avg_position_of (position_list g))) (groupby_url ds))"
    by (rule apply_col_total) (use groupby_url_nonempty in \<open>auto simp: avg_position_of_def\<close>)
  have "\<exists>t. volume_text_of (volume_list g) = Inr t" if mem: "g \<in> set (groupby_url ds)" for g
  proof -
    obtain u where "u \<in> set (group_keys ds)" and g: "g = rows_of_key ds u"
      using mem by (auto simp: groupby_url_def)
    then have "u \<noteq> NaN" by (simp add: set_group_keys)
    then have "\<forall>r\<in>set (filter (\<lambda>r. url r = u) ds). volume r \<noteq> None"
      using vols' by auto
    then have "map volume (filter (\<lambda>r. url r = u) ds)
        = map Some (map (\<lambda>r. the (volume r)) (filter (\<lambda>r. url r = u) ds))"
      by (simp add: map_idI)
    then have "volume_list g = map Some (map (\<lambda>r. the (volume r)) (filter (\<lambda>r. url r = u) ds))"
      by (simp add: g rows_of_key_def Let_def)
    then show ?thesis
      using volume_text_of_total by metis
  qed
  then have vt: "apply_col (\<lambda>g. volume_text_of (volume_list g)) (groupby_url ds)
      = Inr (map (\<lambda>g. projr (volume_text_of (volume_list g))) (groupby_url ds))"
    by (intro apply_col_total) blast
  have "\<exists>out. cluster_keywords f df = Inr out"
    unfolding cluster_keywords_def ds_def [symmetric] Let_def top d avg vt by simp
  then show ?thesis by blast
qed

lemma cluster_keywords_null_volume:
  assumes ok: "argsort_ok f"
    and r: "r \<in> set df" "url r \<noteq> NaN" "volume r = None"
  shows "cluster_keywords f df = Inl ValueError"
proof (cases "cluster_keywords f df")
  case (Inl e)
  then show ?thesis using cluster_keywords_Inl by blast
next
  case (Inr out)
  define ds where "ds = sort_values_volume f df"
  have vt: "\<forall>u\<in>set (group_keys ds). \<exists>t. volume_text_of (volume_list (rows_of_key ds u)) = Inr t"
    using cluster_keywords_rows [OF ok Inr] unfolding ds_def by blast
  have "set ds = set df"
    unfolding ds_def using sort_values_volume_perm [OF ok, of df] by (rule mset_eq_setD)
  then have rds: "r \<in> set ds" using r(1) by simp
  then have "url r \<in> set (group_keys ds)"
    using r(2) by (auto simp: set_group_keys)
  then obtain t where "volume_text_of (volume_list (rows_of_key ds (url r))) = Inr t"
    using vt by blast
  then obtain vs where "volume_list (rows_of_key ds (url r)) = map Some vs"
    using volume_text_of_Inr by blast
  then have "None \<notin> set (map volume (filter (\<lambda>s. url s = url r) ds))"
    by (auto simp: rows_of_key_def Let_def)
  then have False
    using rds r(3) by (auto simp: image_iff)
  then show ?thesis ..
qed

lemma scenario_a_run: "cluster_keywords stable_argsort scenario_a = Inr result_a"
  by code_simp

lemma equal_tops_run: "cluster_keywords stable_argsort equal_tops = Inr equal_tops_result"
  by code_simp

section \<open>Claims about the record sort\<close>




section \<open>Claims about the groups\<close>





text \<open>
  C1 (Scenario B). The record set holds a record whose volume is null. The claim says
  that the group's total is 1000 and its keyword count 2. In the code, line 92 applies
  \<^verbatim>\<open>int\<close> to the null volume, which raises ValueError: the handler of line 112 reports it
  and \<^verbatim>\<open>cluster_keywords\<close> returns no result at all. Before that, line 81 has counted both
  records and line 82 has summed the volumes to NaN, Python's \<^verbatim>\<open>sum\<close> not skipping a NaN.
\<close>

theorem null_volume_aborts_clustering:
  "cluster_keywords stable_argsort scenario_b = Inl ValueError
   \<and> map (\<lambda>g. (length (keyword_list g), py_sum (volume_list g)))
        (groupby_url (sort_values_volume stable_argsort scenario_b)) = [(2, None)]"
  by code_simp

section \<open>Claims about the order of the result\<close>

text \<open>
  C2, as the code has it. For every record set for which \<^verbatim>\<open>cluster_keywords\<close> returns a
  result, the result is in non-decreasing order of \<^verbatim>\<open>top_keyword_volume\<close> (which is never
  null) and has exactly one group for each distinct non-null url. Nothing is promised
  about the order of groups with equal \<^verbatim>\<open>top_keyword_volume\<close>: \<^verbatim>\<open>groupby\<close> hands the groups
  to the final sort in ascending order of url, not in the order of first encounter.
\<close>

theorem result_sorted_by_top_keyword_volume:
  assumes ok: "argsort_ok f"
    and run: "cluster_keywords f df = Inr out"
  shows "sorted (map (\<lambda>g. the (top_keyword_volume g)) out)
       \<and> (\<forall>g\<in>set out. top_keyword_volume g \<noteq> None)
       \<and> mset (map group_url out) = mset (group_keys df)"
proof -
  define ds where "ds = sort_values_volume f df"
  define row where "row tk tv u = completed_row ds tk tv (rows_of_key ds u)" for tk tv u
  obtain tk tv where
    top: "top_loop ds (unique (map url ds)) (Map.empty, Map.empty) = Inr (tk, tv)" and
    vt: "\<forall>u\<in>set (group_keys ds). \<exists>t. volume_text_of (volume_list (rows_of_key ds u)) = Inr t" and
    perm: "mset out = mset (map (row tk tv) (group_keys ds))" and
    out: "out = take_rows (map (row tk tv) (group_keys ds))
            (nargsort f True (map top_keyword_volume (map (row tk tv) (group_keys ds))))"
    using cluster_keywords_rows [OF ok run] unfolding ds_def row_def by blast
  have some: "\<forall>g\<in>set (map (row tk tv) (group_keys ds)). top_keyword_volume g \<noteq> None"
  proof
    fix g assume "g \<in> set (map (row tk tv) (group_keys ds))"
    then obtain u where u: "u \<in> set (group_keys ds)" and g: "g = row tk tv u" by auto
    obtain t where t: "volume_text_of (volume_list (rows_of_key ds u)) = Inr t"
      using vt u by blast
    obtain vs where "top_keyword_volume (completed_row ds tk tv (rows_of_key ds u)) = Some (hd vs)"
      using completed_row_fields [OF top u t] by blast
    then show "top_keyword_volume g \<noteq> None"
      by (simp add: g row_def)
  qed
  have srt: "sorted (map (\<lambda>g. the (top_keyword_volume g)) out)"
    unfolding out using ok some by (rule take_rows_sorted)
  have all: "\<forall>g\<in>set out. top_keyword_volume g \<noteq> None"
    using some mset_eq_setD [OF perm] by simp
  have "map group_url (map (row tk tv) (group_keys ds)) = group_keys ds"
    by (simp add: row_def completed_row_url map_idI)
  then have "mset (map group_url out) = mset (group_keys ds)"
    using perm_map [OF perm, of group_url] by (simp only:)
  moreover have "group_keys ds = group_keys df"
    unfolding ds_def by (rule group_keys_cong) (rule sort_values_volume_urls(1) [OF ok])
  ultimately show ?thesis
    using srt all by simp
qed

theorem result_sorted_by_top_keyword_volume_witness:
  "argsort_ok stable_argsort
   \<and> cluster_keywords stable_argsort scenario_a = Inr result_a
   \<and> sorted (map (\<lambda>g. the (top_keyword_volume g)) result_a)
   \<and> map (\<lambda>g. the (top_keyword_volume g)) result_a = [1000, 2000]
   \<and> mset (map group_url result_a) = mset (group_keys scenario_a)"
proof -
  have "map (\<lambda>g. the (top_keyword_volume g)) result_a = [1000, 2000]"
    by (simp add: result_a_def)
  then show ?thesis
    using result_sorted_by_top_keyword_volume [OF stable_argsort_ok scenario_a_run]
      stable_argsort_ok scenario_a_run
    by blast
qed

text \<open>
  C2 as stated fails. The two groups of \<open>equal_tops\<close> have the same top volume. The url
  \<^verbatim>\<open>/b\<close> is met first in the sorted records, yet the group of \<^verbatim>\<open>/a\<close> comes first in the
  result: \<^verbatim>\<open>groupby\<close> has ordered the groups by url before the final sort.
\<close>

theorem ties_not_in_first_encounter_order:
  "cluster_keywords stable_argsort equal_tops = Inr equal_tops_result
   \<and> map top_keyword_volume equal_tops_result = [Some 100, Some 100]
   \<and> map group_url equal_tops_result = [Str ''/a'', Str ''/b'']
   \<and> unique (map url (sort_values_volume stable_argsort equal_tops)) = [Str ''/b'', Str ''/a'']"
proof -
  have "unique (map url (sort_values_volume stable_argsort equal_tops)) = [Str ''/b'', Str ''/a'']"
    by code_simp
  then show ?thesis
    using equal_tops_run by (simp add: equal_tops_result_def)
qed

section \<open>Claims about the empty record set\<close>

text \<open>
  C9. For the empty record set \<^verbatim>\<open>cluster_keywords\<close> returns the empty result, and for no
  record set does it end in a division by zero: every group that \<^verbatim>\<open>groupby\<close> forms has at
  least one record, so line 83 never divides by the length of an empty list.
\<close>

theorem empty_input_empty_result:
  assumes "argsort_ok f"
  shows "cluster_keywords f [] = Inr [] \<and> cluster_keywords f df \<noteq> Inl ZeroDivisionError"
proof -
  have nil: "nargsort f asc [] = []" for asc
    using argsort_ok_Nil [OF assms] by (simp add: nargsort_def)
  have "cluster_keywords f [] = Inr []"
    by (simp add: cluster_keywords_def sort_values_volume_def take_rows_def nil groupby_url_def
        group_keys_def)
  moreover have "cluster_keywords f df \<noteq> Inl ZeroDivisionError"
    using cluster_keywords_Inl [of f df ZeroDivisionError] by auto
  ultimately show ?thesis by blast
qed

theorem empty_input_empty_result_witness:
  "argsort_ok stable_argsort
   \<and> cluster_keywords stable_argsort [] = Inr []
   \<and> cluster_keywords stable_argsort scenario_a \<noteq> Inl ZeroDivisionError"
  using empty_input_empty_result [OF stable_argsort_ok, of scenario_a] stable_argsort_ok
  by blast

section \<open>Properties of process_file\<close>




lemma select_columns_missing:
  "\<not> set names \<subseteq> set (map fst df) \<Longrightarrow>
   select_columns names df = Inl (KeyError (filter (\<lambda>n. n \<notin> set (map fst df)) names))
   \<and> filter (\<lambda>n. n \<notin> set (map fst df)) names \<noteq> []"
  by (auto simp: select_columns_def Let_def filter_empty_conv)










lemma clean_table_missing:
  assumes "\<not> set (map fst column_names) \<subseteq> set (map fst df)"
  shows "clean_table lib df
      = Inl (KeyError (filter (\<lambda>n. n \<notin> set (map fst df)) (map fst column_names)))"
  using select_columns_missing [OF assms] by (simp add: clean_table_def)



section \<open>Claims about process_file\<close>




text \<open>
  C7. Whatever the stream holds, the reader is called with UTF-16 first, from the current
  position. It is called a second time, with UTF-8, exactly when the first call ended in
  a decoding error; no third call is made. The second call is at position 0 and parses
  the whole content. When both calls fail, \<^verbatim>\<open>process_file\<close> shows the second exception
  and returns \<^verbatim>\<open>None\<close>: no frame, not even a partial one.
\<close>

theorem two_encodings_in_order:
  "(fst (parse_csv lib UTF16 (drop (pos file) (content file))) \<noteq> Inl UnicodeError \<longrightarrow>
      load_table lib file
        = (fst (parse_csv lib UTF16 (drop (pos file) (content file))), [(UTF16, pos file)]))
   \<and> (fst (parse_csv lib UTF16 (drop (pos file) (content file))) = Inl UnicodeError \<longrightarrow>
      load_table lib file
        = (fst (parse_csv lib UTF8 (content file)), [(UTF16, pos file), (UTF8, 0)]))
   \<and> (fst (parse_csv lib UTF16 (drop (pos file) (content file))) = Inl UnicodeError
        \<and> fst (parse_csv lib UTF8 (content file)) = Inl e \<longrightarrow>
      process_file lib file = ([St_error ''Erreur lors du chargement: '' e], None))"
proof -
  obtain r n where first: "parse_csv lib UTF16 (drop (pos file) (content file)) = (r, n)"
    by (cases "parse_csv lib UTF16 (drop (pos file) (content file))")
  obtain r2 n2 where second: "parse_csv lib UTF8 (content file) = (r2, n2)"
    by (cases "parse_csv lib UTF8 (content file)")
  have a: "r \<noteq> Inl UnicodeError \<Longrightarrow> load_table lib file = (r, [(UTF16, pos file)])"
    by (cases r) (simp_all add: load_table_def read_csv_def first)
  have b: "r = Inl UnicodeError \<Longrightarrow>
      load_table lib file = (r2, [(UTF16, pos file), (UTF8, 0)])"
    by (simp add: load_table_def read_csv_def first seek_def second)
  have c: "r = Inl UnicodeError \<Longrightarrow> r2 = Inl e \<Longrightarrow>
      process_file lib file = ([St_error ''Erreur lors du chargement: '' e], None)"
    using b by (simp add: process_file_def)
  show ?thesis
    unfolding first second fst_conv using a b c by (intro conjI impI) auto
qed

theorem two_encodings_in_order_witness:
  "fst (parse_csv demo_library UTF16 (drop (pos \<lparr>content = ''garbage'', pos = 0\<rparr>)
         (content \<lparr>content = ''garbage'', pos = 0\<rparr>))) = Inl UnicodeError
   \<and> fst (parse_csv demo_library UTF8 (content \<lparr>content = ''garbage'', pos = 0\<rparr>))
       = Inl UnicodeError
   \<and> load_table demo_library \<lparr>content = ''garbage'', pos = 0\<rparr>
       = (Inl UnicodeError, [(UTF16, 0), (UTF8, 0)])
   \<and> process_file demo_library \<lparr>content = ''garbage'', pos = 0\<rparr>
       = ([St_error ''Erreur lors du chargement: '' UnicodeError], None)
   \<and> snd (read_csv demo_library UTF16 \<lparr>content = ''garbage'', pos = 0\<rparr>)
       = \<lparr>content = ''garbage'', pos = 2\<rparr>"
proof -
  let ?file = "\<lparr>content = ''garbage'', pos = 0\<rparr>"
  have first: "fst (parse_csv demo_library UTF16 (drop (pos ?file) (content ?file))) = Inl UnicodeError"
    by (simp add: demo_library_def demo_parse_def)
  have second: "fst (parse_csv demo_library UTF8 (content ?file)) = Inl UnicodeError"
    by (simp add: demo_library_def demo_parse_def)
  have moved: "snd (read_csv demo_library UTF16 ?file) = \<lparr>content = ''garbage'', pos = 2\<rparr>"
    by (simp add: read_csv_def demo_library_def demo_parse_def)
  show ?thesis
    using two_encodings_in_order [of demo_library ?file UnicodeError] first second moved
    by simp
qed

text \<open>
  C8. When the parsed table lacks one of the nine quoted columns, \<^verbatim>\<open>process_file\<close> shows
  the KeyError, which names the missing columns, followed by the list of all the columns
  of the parsed table, and returns \<^verbatim>\<open>None\<close>; \<^verbatim>\<open>main\<close> then ends with exactly that
  output, \<^verbatim>\<open>cluster_keywords\<close> not having been called.
\<close>

theorem missing_column_stops_before_clustering:
  assumes loaded: "fst (load_table lib file) = Inr df"
    and missing: "\<not> set (map fst column_names) \<subseteq> set (map fst df)"
  shows "process_file lib file
           = ([St_error ''Erreur lors du chargement: ''
                 (KeyError (filter (\<lambda>n. n \<notin> set (map fst df)) (map fst column_names))),
               St_write ''Colonnes disponibles:'' (map fst df)], None)
       \<and> main_flow lib file
           = ([St_error ''Erreur lors du chargement: ''
                 (KeyError (filter (\<lambda>n. n \<notin> set (map fst df)) (map fst column_names))),
               St_write ''Colonnes disponibles:'' (map fst df)], None)
       \<and> filter (\<lambda>n. n \<notin> set (map fst df)) (map fst column_names) \<noteq> []"
proof -
  have p: "process_file lib file
           = ([St_error ''Erreur lors du chargement: ''
                 (KeyError (filter (\<lambda>n. n \<notin> set (map fst df)) (map fst column_names))),
               St_write ''Colonnes disponibles:'' (map fst df)], None)"
    by (simp add: process_file_def loaded clean_table_missing [OF missing])
  then have m: "main_flow lib file
           = ([St_error ''Erreur lors du chargement: ''
                 (KeyError (filter (\<lambda>n. n \<notin> set (map fst df)) (map fst column_names))),
               St_write ''Colonnes disponibles:'' (map fst df)], None)"
    by (simp add: main_flow_def)
  have "filter (\<lambda>n. n \<notin> set (map fst df)) (map fst column_names) \<noteq> []"
    using select_columns_missing [OF missing] by simp
  then show ?thesis using p m by simp
qed

theorem missing_column_stops_before_clustering_witness:
  "fst (load_table demo_library \<lparr>content = ''export without url'', pos = 0\<rparr>)
     = Inr demo_export_without_url
   \<and> quoted ''Current URL'' \<notin> set (map fst demo_export_without_url)
   \<and> main_flow demo_library \<lparr>content = ''export without url'', pos = 0\<rparr>
     = ([St_error ''Erreur lors du chargement: '' (KeyError [quoted ''Current URL'']),
         St_write ''Colonnes disponibles:''
           [quoted ''Keyword'', quoted ''Volume'', quoted ''Current position'',
            quoted ''Branded'', quoted ''Local'', quoted ''Informational'',
            quoted ''Commercial'', quoted ''Transactional'']], None)"
proof -
  let ?file = "\<lparr>content = ''export without url'', pos = 0\<rparr>"
  have loaded: "fst (load_table demo_library ?file) = Inr demo_export_without_url"
    by code_simp
  have absent: "quoted ''Current URL'' \<notin> set (map fst demo_export_without_url)"
    by (simp add: demo_export_without_url_def quoted_def)
  then have missing: "\<not> set (map fst column_names) \<subseteq> set (map fst demo_export_without_url)"
    by (auto simp: column_names_def)
  have names: "map fst demo_export_without_url
      = [quoted ''Keyword'', quoted ''Volume'', quoted ''Current position'',
            quoted ''Branded'', quoted ''Local'', quoted ''Informational'',
            quoted ''Commercial'', quoted ''Transactional'']"
    by (simp add: demo_export_without_url_def)
  have lost: "filter (\<lambda>n. n \<notin> set (map fst demo_export_without_url)) (map fst column_names)
      = [quoted ''Current URL'']"
    by code_simp
  note stopped = missing_column_stops_before_clustering [OF loaded missing, unfolded lost, unfolded names]
  show ?thesis
    by (intro conjI) (rule loaded, rule absent, rule stopped [THEN conjunct2, THEN conjunct1])
qed

section \<open>Properties of cluster_keywords on a store\<close>

lemma extends_refl: "extends h h"
  by (simp add: extends_def)

lemma extends_alloc: "extends h0 h \<Longrightarrow> extends h0 (snd (alloc x h))"
  by (simp add: extends_def alloc_def nth_append)

lemma extends_append: "extends h0 h \<Longrightarrow> extends h0 (h @ [x])"
  by (simp add: extends_def nth_append)

lemma extends_store: "extends h0 h \<Longrightarrow> length h0 \<le> a \<Longrightarrow> extends h0 (store a x h)"
  by (simp add: extends_def store_def)

lemma extends_assign_at:
  "extends h0 h \<Longrightarrow> length h0 \<le> g \<Longrightarrow> extends h0 (assign_at g name c h)"
  by (simp add: assign_at_def extends_store)

lemma extends_length: "extends h0 h \<Longrightarrow> length h0 \<le> length h"
  by (simp add: extends_def)

lemma extends_top_loop_at:
  "extends h0 h \<Longrightarrow> length h0 \<le> tk \<Longrightarrow> length h0 \<le> tv \<Longrightarrow>
   extends h0 (snd (top_loop_at s tk tv us h))"
proof (induction us arbitrary: h)
  case Nil
  then show ?case by simp
next
  case (Cons u us)
  let ?h1 = "h @ [Records (filter (\<lambda>r. cell_eq (url r) u) (records (h ! s)))]"
  have e1: "extends h0 ?h1"
    using Cons.prems(1) by (rule extends_append)
  show ?case
  proof (cases "records (?h1 ! length h)")
    case Nil
    then show ?thesis
      using Cons.IH [OF e1 Cons.prems(2,3)] by (simp add: alloc_def)
  next
    case (Cons r rs)
    let ?h2 = "store tk (Keyword_dict ((keyword_dict (?h1 ! tk))(u \<mapsto> keyword r))) ?h1"
    have e2: "extends h0 ?h2"
      using e1 Cons.prems(2) by (rule extends_store)
    show ?thesis
    proof (cases "volume r")
      case None
      then show ?thesis
        using Cons e2 by (simp add: alloc_def Let_def)
    next
      case (Some v)
      have "extends h0 (store tv (Volume_dict ((volume_dict (?h2 ! tv))(u \<mapsto> v))) ?h2)"
        using e2 Cons.prems(3) by (rule extends_store)
      from Cons.IH [OF this Cons.prems(2,3)] show ?thesis
        using Cons Some by (simp add: alloc_def Let_def)
    qed
  qed
qed

lemma extends_and_then:
  assumes "extends h0 (snd m)"
    and "\<And>x h. extends h0 h \<Longrightarrow> extends h0 (snd (k x h))"
  shows "extends h0 (snd (and_then m k))"
  using assms by (cases m) (auto simp: and_then_def split: sum.splits)

lemma extends_sort_and_tops_at: "extends h0 (snd (sort_and_tops_at f df h0))"
proof -
  let ?h3 = "(h0 @ [Records (sort_values_volume f (records (h0 ! df)))])
               @ [Keyword_dict Map.empty] @ [Volume_dict Map.empty]"
  have e3: "extends h0 ?h3"
    by (simp add: extends_def nth_append)
  have "extends h0 (snd (top_loop_at (length h0) (Suc (length h0)) (Suc (Suc (length h0)))
          (unique (map url (records (?h3 ! length h0)))) ?h3))"
    using e3 by (rule extends_top_loop_at) simp_all
  then show ?thesis
    unfolding sort_and_tops_at_def alloc_def
    by (simp add: extends_and_then)
qed

lemma extends_groupby_at: "extends h0 h \<Longrightarrow> extends h0 (snd (groupby_at s h))"
  unfolding groupby_at_def by (rule extends_alloc)

lemma fst_groupby_at: "fst (groupby_at s h) = length h"
  by (simp add: groupby_at_def alloc_def)

lemma extends_metrics_at:
  "extends h0 h \<Longrightarrow> length h0 \<le> g \<Longrightarrow> extends h0 (snd (metrics_at g tk tv h))"
  unfolding metrics_at_def Let_def
  by (simp add: extends_assign_at split: sum.splits)

lemma extends_format_at:
  "extends h0 h \<Longrightarrow> length h0 \<le> g \<Longrightarrow> extends h0 (snd (format_at g s h))"
  unfolding format_at_def Let_def
  by (simp add: extends_assign_at split: sum.splits)

lemma extends_result_at: "extends h0 h \<Longrightarrow> extends h0 (snd (result_at f g h))"
  unfolding result_at_def case_prod_beta
  by (intro extends_alloc)

lemma extends_cluster_keywords_at: "extends h0 (snd (cluster_keywords_at f df h0))"
  unfolding cluster_keywords_at_def
proof (rule extends_and_then [OF extends_sort_and_tops_at], goal_cases)
  case (1 x h4)
  obtain s tk tv where x: "x = (s, tk, tv)" by (cases x)
  obtain g h5 where gb: "groupby_at s h4 = (g, h5)" by (cases "groupby_at s h4")
  have g: "length h0 \<le> g"
    using fst_groupby_at [of s h4] gb extends_length [OF 1] by simp
  have e5: "extends h0 h5"
    using extends_groupby_at [OF 1, of s] gb by simp
  have "extends h0 (snd (and_then (metrics_at g tk tv h5)
          (\<lambda>_ h10. and_then (format_at g s h10)
             (\<lambda>_ h13. case result_at f g h13 of (result, h15) \<Rightarrow> (Inr result, h15)))))"
  proof (rule extends_and_then [OF extends_metrics_at [OF e5 g]], goal_cases)
    case (1 y h10)
    show ?case
    proof (rule extends_and_then [OF extends_format_at [OF 1 g]], goal_cases)
      case (1 z h13)
      then have "extends h0 (snd (result_at f g h13))"
        by (rule extends_result_at)
      then show ?case
        by (simp add: case_prod_beta)
    qed
  qed
  then show ?case
    by (simp add: x gb)
qed

lemma assign_at_last:
  "assign_at (length h) name c (h @ [Table t]) = h @ [Table (assign name c t)]"
  by (simp add: assign_at_def store_def)

lemma column_at_last: "column_at (h @ [Table t]) (length h) name = the (map_of t name)"
  by (simp add: column_at_def)

lemma nth_before_last: "b < length h \<Longrightarrow> (h @ [x]) ! b = h ! b"
  by (simp add: nth_append)

lemma apply_col_map: "apply_col f (map k xs) = apply_col (\<lambda>x. f (k x)) xs"
  by (induction xs) (auto split: sum.splits)

lemma top_loop_at_refines:
  assumes "s < length h" "tk < length h" "tv < length h" "s \<noteq> tk" "s \<noteq> tv" "tk \<noteq> tv"
    and "h ! s = Records ds" "h ! tk = Keyword_dict dk" "h ! tv = Volume_dict dv"
  shows "case top_loop ds us (dk, dv) of
           Inl e \<Rightarrow> fst (top_loop_at s tk tv us h) = Inl e
         | Inr (dk', dv') \<Rightarrow>
             fst (top_loop_at s tk tv us h) = Inr ()
             \<and> snd (top_loop_at s tk tv us h) ! s = Records ds
             \<and> snd (top_loop_at s tk tv us h) ! tk = Keyword_dict dk'
             \<and> snd (top_loop_at s tk tv us h) ! tv = Volume_dict dv'
             \<and> length h \<le> length (snd (top_loop_at s tk tv us h))"
  using assms
proof (induction us arbitrary: h dk dv)
  case Nil
  then show ?case by simp
next
  case (Cons u us)
  let ?F = "filter (\<lambda>r. cell_eq (url r) u) ds"
  let ?h1 = "h @ [Records ?F]"
  have h1: "s < length ?h1" "tk < length ?h1" "tv < length ?h1"
    "?h1 ! s = Records ds" "?h1 ! tk = Keyword_dict dk" "?h1 ! tv = Volume_dict dv"
    using Cons.prems by (simp_all add: nth_append)
  have first: "records ((h @ [Records ?F]) ! length h) = ?F"
    by simp
  show ?case
  proof (cases ?F)
    case Nil
    have eq: "top_loop_at s tk tv (u # us) h = top_loop_at s tk tv us ?h1"
      using Nil Cons.prems(7) by (simp add: alloc_def)
    have len: "length ?h1 = Suc (length h)" by simp
    have pure: "top_loop ds (u # us) (dk, dv) = top_loop ds us (dk, dv)"
      using Nil by simp
    note IH = Cons.IH [OF h1(1-3) Cons.prems(4-6) h1(4-6), unfolded len]
    show ?thesis
    proof (cases "top_loop ds us (dk, dv)")
      case (Inl e)
      from IH have "fst (top_loop_at s tk tv us ?h1) = Inl e"
        by (simp only: Inl sum.case)
      then show ?thesis
        by (simp only: eq pure Inl sum.case)
    next
      case (Inr p)
      obtain a b where p: "p = (a, b)" by (cases p)
      from IH have all: "fst (top_loop_at s tk tv us ?h1) = Inr ()
          \<and> snd (top_loop_at s tk tv us ?h1) ! s = Records ds
          \<and> snd (top_loop_at s tk tv us ?h1) ! tk = Keyword_dict a
          \<and> snd (top_loop_at s tk tv us ?h1) ! tv = Volume_dict b
          \<and> Suc (length h) \<le> length (snd (top_loop_at s tk tv us ?h1))"
        by (simp only: Inr p sum.case prod.case)
      then have "length h \<le> length (snd (top_loop_at s tk tv us ?h1))"
        by linarith
      with all show ?thesis
        by (simp only: eq pure Inr p sum.case prod.case simp_thms)
    qed
  next
    case F: (Cons r rs)
    let ?h2 = "store tk (Keyword_dict (dk(u \<mapsto> keyword r))) ?h1"
    have h2tv: "?h2 ! tv = Volume_dict dv"
      using h1 Cons.prems(6) by (simp add: store_def)
    show ?thesis
    proof (cases "volume r")
      case None
      have "fst (top_loop_at s tk tv (u # us) h) = Inl ValueError"
        using F None h1(5) Cons.prems(7) by (simp add: alloc_def Let_def)
      moreover have "top_loop ds (u # us) (dk, dv) = Inl ValueError"
        using F None by simp
      ultimately show ?thesis
        by (simp del: top_loop.simps top_loop_at.simps)
    next
      case (Some v)
      let ?h3 = "store tv (Volume_dict (dv(u \<mapsto> v))) ?h2"
      have h3: "s < length ?h3" "tk < length ?h3" "tv < length ?h3"
        "?h3 ! s = Records ds" "?h3 ! tk = Keyword_dict (dk(u \<mapsto> keyword r))"
        "?h3 ! tv = Volume_dict (dv(u \<mapsto> v))"
        using h1 Cons.prems(4-6) by (simp_all add: store_def)
      have eq: "top_loop_at s tk tv (u # us) h = top_loop_at s tk tv us ?h3"
        using F Some h1(5) h2tv Cons.prems(7) by (simp add: alloc_def Let_def)
      have len: "length ?h3 = Suc (length h)"
        by (simp add: store_def)
      have pure: "top_loop ds (u # us) (dk, dv)
          = top_loop ds us (dk(u \<mapsto> keyword r), dv(u \<mapsto> v))"
        using F Some by simp
      note IH = Cons.IH [OF h3(1-3) Cons.prems(4-6) h3(4-6), unfolded len]
      show ?thesis
      proof (cases "top_loop ds us (dk(u \<mapsto> keyword r), dv(u \<mapsto> v))")
        case (Inl e)
        from IH have "fst (top_loop_at s tk tv us ?h3) = Inl e"
          by (simp only: Inl sum.case)
        then show ?thesis
          by (simp only: eq pure Inl sum.case)
      next
        case (Inr p)
        obtain a b where p: "p = (a, b)" by (cases p)
        from IH have all: "fst (top_loop_at s tk tv us ?h3) = Inr ()
            \<and> snd (top_loop_at s tk tv us ?h3) ! s = Records ds
            \<and> snd (top_loop_at s tk tv us ?h3) ! tk = Keyword_dict a
            \<and> snd (top_loop_at s tk tv us ?h3) ! tv = Volume_dict b
            \<and> Suc (length h) \<le> length (snd (top_loop_at s tk tv us ?h3))"
          by (simp only: Inr p sum.case prod.case)
        then have "length h \<le> length (snd (top_loop_at s tk tv us ?h3))"
          by linarith
        with all show ?thesis
          by (simp only: eq pure Inr p sum.case prod.case simp_thms)
      qed
    qed
  qed
qed

lemma metrics_at_last:
  assumes "tk < length h" "tv < length h"
    and "h ! tk = Keyword_dict dk" "h ! tv = Volume_dict dv"
  shows "metrics_at (length h) tk tv
           (h @ [Table [(''url'', Cells us), (''keyword'', Cell_lists ks),
                        (''position'', Number_lists ps), (''volume'', Number_lists vs)]])
       = (case apply_col avg_position_of ps of
            Inl e \<Rightarrow>
              (Inl e,
               h @ [Table [(''url'', Cells us), (''keyword'', Cell_lists ks),
                           (''position'', Number_lists ps), (''volume'', Number_lists vs),
                           (''keyword_count'', Counts (map length ks)),
                           (''total_volume'', Numbers (map py_sum vs))]])
          | Inr avgs \<Rightarrow>
              (Inr (),
               h @ [Table [(''url'', Cells us), (''keyword'', Cell_lists ks),
                           (''position'', Number_lists ps), (''volume'', Number_lists vs),
                           (''keyword_count'', Counts (map length ks)),
                           (''total_volume'', Numbers (map py_sum vs)),
                           (''avg_position'', Means avgs),
                           (''top_keyword'', Cells (map (map_dict dk) us)),
                           (''top_keyword_volume'', Numbers (map dv us))]]))"
  using assms
  by (simp add: metrics_at_def Let_def assign_at_last column_at_last nth_before_last assign_def
      split: sum.splits)

lemma format_at_last:
  assumes "s < length h" and "h ! s = Records ds"
  shows "format_at (length h) s
           (h @ [Table [(''url'', Cells us), (''keyword'', Cell_lists ks),
                        (''position'', Number_lists ps), (''volume'', Number_lists vs),
                        (''keyword_count'', c1), (''total_volume'', c2), (''avg_position'', c3),
                        (''top_keyword'', c4), (''top_keyword_volume'', c5)]])
       = (case apply_col volume_text_of vs of
            Inl e \<Rightarrow>
              (Inl e,
               h @ [Table [(''url'', Cells us),
                           (''keyword'',
                            Texts (map (\<lambda>x. join_lines (map (str_cell (NaN \<in> set (map keyword ds))) x)) ks)),
                           (''position'',
                            Texts (map (\<lambda>x. join_lines
                                     (map (str_number (column_is_float (map position ds))) x)) ps)),
                           (''volume'', Number_lists vs),
                           (''keyword_count'', c1), (''total_volume'', c2), (''avg_position'', c3),
                           (''top_keyword'', c4), (''top_keyword_volume'', c5)]])
          | Inr vtexts \<Rightarrow>
              (Inr (),
               h @ [Table [(''url'', Cells us),
                           (''keyword'',
                            Texts (map (\<lambda>x. join_lines (map (str_cell (NaN \<in> set (map keyword ds))) x)) ks)),
                           (''position'',
                            Texts (map (\<lambda>x. join_lines
                                     (map (str_number (column_is_float (map position ds))) x)) ps)),
                           (''volume'', Texts vtexts),
                           (''keyword_count'', c1), (''total_volume'', c2), (''avg_position'', c3),
                           (''top_keyword'', c4), (''top_keyword_volume'', c5)]]))"
  using assms
  by (simp add: format_at_def Let_def assign_at_last column_at_last nth_before_last assign_def
      split: sum.splits)

lemma column_at_last2:
  "column_at (h @ [x, Table t]) (Suc (length h)) name = the (map_of t name)"
  by (simp add: column_at_def nth_append)

lemma nth_last2: "(h @ [x, y]) ! Suc (length h) = y"
  by (simp add: nth_append)

lemma result_at_last:
  "result_at f (length h)
     (h @ [Table [(''url'', Cells us), (''keyword'', Texts kt), (''position'', Texts pt),
                  (''volume'', Texts vt), (''keyword_count'', Counts n1),
                  (''total_volume'', Numbers n2), (''avg_position'', Means n3),
                  (''top_keyword'', Cells k4), (''top_keyword_volume'', Numbers n5)]])
   = (Suc (Suc (length h)),
      h @ [Table [(''url'', Cells us), (''keyword'', Texts kt), (''position'', Texts pt),
                  (''volume'', Texts vt), (''keyword_count'', Counts n1),
                  (''total_volume'', Numbers n2), (''avg_position'', Means n3),
                  (''top_keyword'', Cells k4), (''top_keyword_volume'', Numbers n5)],
           Table [(''url'', Cells us), (''top_keyword'', Cells k4),
                  (''top_keyword_volume'', Numbers n5), (''avg_position'', Means n3),
                  (''keyword_count'', Counts n1), (''total_volume'', Numbers n2),
                  (''keyword'', Texts kt), (''volume'', Texts vt), (''position'', Texts pt)],
           Table [(''url'', Cells (take_rows us (nargsort f True n5))),
                  (''top_keyword'', Cells (take_rows k4 (nargsort f True n5))),
                  (''top_keyword_volume'', Numbers (take_rows n5 (nargsort f True n5))),
                  (''avg_position'', Means (take_rows n3 (nargsort f True n5))),
                  (''keyword_count'', Counts (take_rows n1 (nargsort f True n5))),
                  (''total_volume'', Numbers (take_rows n2 (nargsort f True n5))),
                  (''keyword'', Texts (take_rows kt (nargsort f True n5))),
                  (''volume'', Texts (take_rows vt (nargsort f True n5))),
                  (''position'', Texts (take_rows pt (nargsort f True n5)))]])"
  by (simp add: result_at_def alloc_def column_at_last column_at_last2 nth_last2
      take_column_def)

lemma groups_of_columns:
  "groups_of [(''url'', Cells us), (''top_keyword'', Cells k4),
              (''top_keyword_volume'', Numbers n5), (''avg_position'', Means n3),
              (''keyword_count'', Counts n1), (''total_volume'', Numbers n2),
              (''keyword'', Texts kt), (''volume'', Texts vt), (''position'', Texts pt)]
   = map (\<lambda>i. \<lparr>group_url = us ! i, top_keyword = k4 ! i, top_keyword_volume = n5 ! i,
                avg_position = n3 ! i, keyword_count = n1 ! i, total_volume = n2 ! i,
                keyword_text = kt ! i, volume_text = vt ! i, position_text = pt ! i\<rparr>)
       [0..<length us]"
  by (simp add: groups_of_def)

lemma sorted_table_rows:
  assumes "\<forall>j\<in>set ix. j < length by_url"
  shows "map (\<lambda>i. \<lparr>group_url = take_rows (map rows_url by_url) ix ! i,
                  top_keyword = take_rows (map (\<lambda>g. map_dict dk (rows_url g)) by_url) ix ! i,
                  top_keyword_volume = take_rows (map (\<lambda>g. dv (rows_url g)) by_url) ix ! i,
                  avg_position =
                    take_rows (map (\<lambda>g. projr (avg_position_of (position_list g))) by_url) ix ! i,
                  keyword_count = take_rows (map (\<lambda>g. length (keyword_list g)) by_url) ix ! i,
                  total_volume = take_rows (map (\<lambda>g. py_sum (volume_list g)) by_url) ix ! i,
                  keyword_text =
                    take_rows (map (\<lambda>g. join_lines
                       (map (str_cell (NaN \<in> set (map keyword ds))) (keyword_list g))) by_url) ix ! i,
                  volume_text =
                    take_rows (map (\<lambda>g. projr (volume_text_of (volume_list g))) by_url) ix ! i,
                  position_text =
                    take_rows (map (\<lambda>g. join_lines
                       (map (str_number (column_is_float (map position ds))) (position_list g)))
                       by_url) ix ! i\<rparr>)
           [0..<length ix]
       = take_rows (map (completed_row ds dk dv) by_url) ix"
  using assms
  by (intro nth_equalityI) (simp_all add: take_rows_def completed_row_def result_row_def)

end
